theory Spec2Isabelle
  imports Main "HOL-Library.Multiset"
begin

section \<open>The WW2 memory game of \<open>src/src/block.tsx\<close>\<close>

text \<open>
  The component \<open>Block\<close> keeps eight \<open>useState\<close> cells, one click handler, two
  \<open>setTimeout\<close> callbacks, one \<open>setInterval\<close> sampler and one effect that posts the
  completion message. The embedding below threads one record through these operations.
  JavaScript numbers are modelled as \<open>int\<close> (every number the component computes is an
  integer far below \<open>2^53\<close>), a symbol as the list of its Unicode code points, a name
  as an ASCII string.
\<close>

subsection \<open>Data model\<close>

record item =
  item_symbol :: "int list"
  item_name :: string

record card =
  id_card :: int
  symbol :: "int list"
  name :: string
  matched :: bool
  flipped :: bool

definition WW2_ITEMS :: "item list" where
  "WW2_ITEMS =
    [ \<lparr>item_symbol = [0x2708, 0xFE0F], item_name = ''Fighter Plane''\<rparr>,
      \<lparr>item_symbol = [0x1F681], item_name = ''Helicopter''\<rparr>,
      \<lparr>item_symbol = [0x1F6A2], item_name = ''Battleship''\<rparr>,
      \<lparr>item_symbol = [0x2693], item_name = ''Naval Anchor''\<rparr>,
      \<lparr>item_symbol = [0x1FA96], item_name = ''Military Helmet''\<rparr>,
      \<lparr>item_symbol = [0x1F396, 0xFE0F], item_name = ''Military Medal''\<rparr>,
      \<lparr>item_symbol = [0x1F4A3], item_name = ''Bomb''\<rparr>,
      \<lparr>item_symbol = [0x1F52B], item_name = ''Rifle''\<rparr>,
      \<lparr>item_symbol = [0x1F5FA, 0xFE0F], item_name = ''Battle Map''\<rparr>,
      \<lparr>item_symbol = [0x1F4FB], item_name = ''Radio''\<rparr>,
      \<lparr>item_symbol = [0x1F682], item_name = ''Military Train''\<rparr>,
      \<lparr>item_symbol = [0x2B50], item_name = ''Military Star''\<rparr> ]"

text \<open>
  A scheduled \<open>setTimeout\<close> callback of \<open>handleCardClick\<close>: the match branch or the
  mismatch branch, closed over \<open>firstId\<close> and \<open>secondId\<close>. A pending timer is the
  callback with the time at which it is due (the click's time plus the delay).
\<close>

datatype callback = MatchCb int int | MismatchCb int int

record timer =
  due :: int
  callback :: callback

datatype target = Window | WindowParent

record payload =
  moves_d :: int
  timeElapsed_d :: int
  difficulty_d :: string

record completion =
  type_c :: string
  blockId :: string
  completed :: bool
  score :: int
  maxScore :: int
  timeSpent :: int
  data_c :: payload

text \<open>
  The session: the eight state cells of the component, the \<open>difficulty\<close> prop, the
  timeouts that are scheduled and have not fired, and the log of \<open>postMessage\<close> calls.
\<close>

record game =
  cards :: "card list"
  flippedCards :: "int list"
  matchedPairs :: int
  moves :: int
  gameStarted :: bool
  gameWon :: bool
  startTime :: int
  timeElapsed :: int
  difficulty :: string
  timers :: "timer list"
  posted :: "(target \<times> completion) list"

subsection \<open>Deck builder\<close>

definition getGridSize :: "string \<Rightarrow> int" where
  "getGridSize diff =
     (if diff = ''easy'' then 4
      else if diff = ''medium'' then 4
      else if diff = ''hard'' then 6
      else 4)"

text \<open>\<open>(gridSize * 4) / 2\<close>: the dividend is even, so the quotient is exact.\<close>

definition totalPairs :: "string \<Rightarrow> int" where
  "totalPairs diff = (getGridSize diff * 4) div 2"

text \<open>
  The body of the \<open>forEach\<close>: two pushes, each taking \<open>cardId++\<close>. The loop state is
  the array built so far and the counter.
\<close>

definition pushPair :: "card list \<times> int \<Rightarrow> item \<Rightarrow> card list \<times> int" where
  "pushPair st it =
     (case st of (gameCards, cardId) \<Rightarrow>
        (gameCards @
           [\<lparr>id_card = cardId, symbol = item_symbol it, name = item_name it,
              matched = False, flipped = False\<rparr>,
            \<lparr>id_card = cardId + 1, symbol = item_symbol it, name = item_name it,
              matched = False, flipped = False\<rparr>],
         cardId + 2))"

definition createPairs :: "item list \<Rightarrow> card list" where
  "createPairs selectedItems = fst (foldl pushPair ([], 0) selectedItems)"

text \<open>
  \<open>gameCards.sort(() => Math.random() - 0.5)\<close> rearranges the array in an order the
  program does not determine. The order is an input of the model: \<open>p\<close> lists, for each
  position of the result, the index of the element that lands there. A list that is no
  arrangement of the indices stands for no outcome of the sort and leaves the array as
  it is.
\<close>

definition shuffle :: "nat list \<Rightarrow> 'a list \<Rightarrow> 'a list" where
  "shuffle p xs = (if sort p = [0..<length xs] then map (\<lambda>i. xs ! i) p else xs)"

definition gameDeck :: "string \<Rightarrow> card list" where
  "gameDeck diff = createPairs (take (nat (totalPairs diff)) WW2_ITEMS)"

definition initializeGame :: "nat list \<Rightarrow> game \<Rightarrow> game" where
  "initializeGame p s =
     s\<lparr>cards := shuffle p (gameDeck (difficulty s)),
       flippedCards := [],
       matchedPairs := 0,
       moves := 0,
       gameWon := False,
       gameStarted := False,
       timeElapsed := 0\<rparr>"

text \<open>The first render and the mount effect: the initial cells, then \<open>initializeGame\<close>.\<close>

definition initial :: "string \<Rightarrow> game" where
  "initial diff =
     \<lparr>cards = [], flippedCards = [], matchedPairs = 0, moves = 0, gameStarted = False,
      gameWon = False, startTime = 0, timeElapsed = 0, difficulty = diff, timers = [],
      posted = []\<rparr>"

definition mount :: "string \<Rightarrow> nat list \<Rightarrow> game" where
  "mount diff p = initializeGame p (initial diff)"

subsection \<open>Game engine\<close>

text \<open>\<open>cards.find(card => card.id === cardId)\<close>: the first card with that identifier.\<close>

definition findCard :: "card list \<Rightarrow> int \<Rightarrow> card option" where
  "findCard cs cardId = find (\<lambda>c. id_card c = cardId) cs"

text \<open>
  \<open>handleCardClick\<close>, run in the render that shows state \<open>s\<close>, at clock reading
  \<open>now\<close>. The start latch comes first, before the three early returns. The guards and
  the two lookups read the cells of the render; \<open>?.matched\<close> of a card that is not found is
  \<open>undefined\<close>, which does not return.
\<close>

definition handleCardClick :: "int \<Rightarrow> int \<Rightarrow> game \<Rightarrow> game" where
  "handleCardClick now cardId s =
     (let s1 = (if \<not> gameStarted s then s\<lparr>gameStarted := True, startTime := now\<rparr> else s) in
      if length (flippedCards s) = 2 then s1
      else if cardId \<in> set (flippedCards s) then s1
      else if (case findCard (cards s) cardId of Some c \<Rightarrow> matched c | None \<Rightarrow> False)
        then s1
      else
        let newFlippedCards = flippedCards s @ [cardId];
            s2 = s1\<lparr>flippedCards := newFlippedCards,
                    cards := map (\<lambda>c. if id_card c = cardId
                                          then c\<lparr>flipped := True\<rparr> else c) (cards s1)\<rparr>
        in
          if length newFlippedCards = 2 then
            let s3 = s2\<lparr>moves := moves s2 + 1\<rparr>;
                firstId = newFlippedCards ! 0;
                secondId = newFlippedCards ! 1;
                firstCard = findCard (cards s) firstId;
                secondCard = findCard (cards s) secondId
            in
              if (case firstCard of None \<Rightarrow> False
                  | Some f \<Rightarrow> (case secondCard of None \<Rightarrow> False
                               | Some g \<Rightarrow> symbol f = symbol g))
              then s3\<lparr>timers := timers s3 @
                        [\<lparr>due = now + 1000, callback = MatchCb firstId secondId\<rparr>]\<rparr>
              else s3\<lparr>timers := timers s3 @
                        [\<lparr>due = now + 1500, callback = MismatchCb firstId secondId\<rparr>]\<rparr>
          else s2)"

text \<open>The body of a timeout callback: three functional updates on the state it finds.\<close>

fun runCallback :: "callback \<Rightarrow> game \<Rightarrow> game" where
  "runCallback (MatchCb firstId secondId) s =
     s\<lparr>cards := map (\<lambda>c. if id_card c = firstId \<or> id_card c = secondId
                            then c\<lparr>matched := True, flipped := False\<rparr> else c) (cards s),
       matchedPairs := matchedPairs s + 1,
       flippedCards := []\<rparr>"
| "runCallback (MismatchCb firstId secondId) s =
     s\<lparr>cards := map (\<lambda>c. if id_card c = firstId \<or> id_card c = secondId
                            then c\<lparr>flipped := False\<rparr> else c) (cards s),
       flippedCards := []\<rparr>"

text \<open>The \<open>k\<close>-th pending timeout fires: it leaves the pending list and its callback runs.\<close>

definition fire :: "nat \<Rightarrow> game \<Rightarrow> game" where
  "fire k s =
     (if k < length (timers s)
      then runCallback (callback (timers s ! k))
             (s\<lparr>timers := take k (timers s) @ drop (Suc k) (timers s)\<rparr>)
      else s)"

text \<open>
  The sampler: the interval exists in the renders with \<open>gameStarted && !gameWon\<close>, and
  its callback stores \<open>Date.now() - startTime\<close>.
\<close>

definition tick :: "int \<Rightarrow> game \<Rightarrow> game" where
  "tick now s =
     (if gameStarted s \<and> \<not> gameWon s then s\<lparr>timeElapsed := now - startTime s\<rparr> else s)"

definition completionData :: "game \<Rightarrow> completion" where
  "completionData s =
     \<lparr>type_c = ''BLOCK_COMPLETION'',
      blockId = ''ww2-memory-game'',
      completed = True,
      score = max (1000 - moves s * 10) 100,
      maxScore = 1000,
      timeSpent = timeElapsed s,
      data_c = \<lparr>moves_d = moves s, timeElapsed_d = timeElapsed s,
                difficulty_d = difficulty s\<rparr>\<rparr>"

text \<open>
  The win effect. Its dependency array is
  \<open>[matchedPairs, totalPairs, gameStarted, moves, timeElapsed, difficulty]\<close>; it runs after
  a render in which one of them differs from the render before.
\<close>

definition deps :: "game \<Rightarrow> int \<times> int \<times> bool \<times> int \<times> int \<times> string" where
  "deps s = (matchedPairs s, totalPairs (difficulty s), gameStarted s, moves s,
             timeElapsed s, difficulty s)"

definition winEffect :: "game \<Rightarrow> game \<Rightarrow> game" where
  "winEffect prev s =
     (if deps prev = deps s then s
      else if matchedPairs s = totalPairs (difficulty s) \<and> gameStarted s
      then s\<lparr>gameWon := True,
             posted := posted s @ [(Window, completionData s),
                                   (WindowParent, completionData s)]\<rparr>
      else s)"

text \<open>
  One event of the event loop: a click on the card button \<open>cardId\<close> at time \<open>now\<close>, the
  New Game button with the outcome \<open>p\<close> of the shuffle, a pending timeout firing, or a
  sampler tick at time \<open>now\<close>. The handler runs, the component renders, the win effect
  runs. Events are taken one at a time: none falls between a render and its effects.
\<close>

datatype event = Click int int | Restart "nat list" | Fire nat | Tick int

fun act :: "event \<Rightarrow> game \<Rightarrow> game" where
  "act (Click now cardId) s = handleCardClick now cardId s"
| "act (Restart p) s = initializeGame p s"
| "act (Fire k) s = fire k s"
| "act (Tick now) s = tick now s"

definition step :: "event \<Rightarrow> game \<Rightarrow> game" where
  "step e s = winEffect s (act e s)"

definition run :: "event list \<Rightarrow> game \<Rightarrow> game" where
  "run es s = foldl (\<lambda>s e. step e s) s es"

text \<open>
  What the page lets happen. A card button exists for each card of the deck and is
  \<open>disabled\<close> when the card is matched or selected; a timeout that fires is pending;
  the interval ticks only while it exists.
\<close>

fun enabled :: "game \<Rightarrow> event \<Rightarrow> bool" where
  "enabled s (Click now cardId) =
     (\<exists>c \<in> set (cards s). id_card c = cardId \<and>
         \<not> (matched c \<or> cardId \<in> set (flippedCards s)))"
| "enabled s (Restart p) = True"
| "enabled s (Fire k) = (k < length (timers s))"
| "enabled s (Tick now) = (gameStarted s \<and> \<not> gameWon s)"

text \<open>
  The time at which an event happens, given the time of the event before it: a click
  and a tick carry the clock reading, a timeout fires when it is due, and the New Game
  button (whose handler reads no clock) is placed at the time of the event before.
\<close>

fun occurs :: "int \<Rightarrow> game \<Rightarrow> event \<Rightarrow> int" where
  "occurs clock s (Click now cardId) = now"
| "occurs clock s (Restart p) = clock"
| "occurs clock s (Fire k) = due (timers s ! k)"
| "occurs clock s (Tick now) = now"

text \<open>
  A run the page can show: every event is enabled, the clock never goes back, and no
  event happens after a pending timeout is due, so every timeout fires exactly on time
  and in the order of the due times.
\<close>

fun playable :: "int \<Rightarrow> game \<Rightarrow> event list \<Rightarrow> bool" where
  "playable clock s [] = True"
| "playable clock s (e # es) =
     (enabled s e \<and> clock \<le> occurs clock s e \<and>
      (\<forall>tm \<in> set (timers s). occurs clock s e \<le> due tm) \<and>
      playable (occurs clock s e) (step e s) es)"

subsection \<open>Notions used in the statements\<close>

text \<open>The three early returns of \<open>handleCardClick\<close>, in the order of the source.\<close>

definition rejects :: "game \<Rightarrow> int \<Rightarrow> bool" where
  "rejects s cardId \<longleftrightarrow>
     length (flippedCards s) = 2 \<or>
     cardId \<in> set (flippedCards s) \<or>
     (case findCard (cards s) cardId of Some c \<Rightarrow> matched c | None \<Rightarrow> False)"

text \<open>
  The invariant of the selection set, with the fact about the deck it rests on: no two
  cards share an identifier.
\<close>

definition selectionInv :: "game \<Rightarrow> bool" where
  "selectionInv s \<longleftrightarrow>
     length (flippedCards s) \<le> 2 \<and>
     distinct (flippedCards s) \<and>
     (\<forall>c \<in> set (cards s). matched c \<longrightarrow> id_card c \<notin> set (flippedCards s)) \<and>
     distinct (map id_card (cards s))"

text \<open>What a posted record must look like, whatever the run that posted it.\<close>

definition recordOk :: "completion \<Rightarrow> bool" where
  "recordOk c \<longleftrightarrow>
     type_c c = ''BLOCK_COMPLETION'' \<and>
     blockId c = ''ww2-memory-game'' \<and>
     completed c \<and>
     maxScore c = 1000 \<and>
     score c = max (1000 - moves_d (data_c c) * 10) 100 \<and>
     100 \<le> score c \<and> score c \<le> 1000 \<and>
     0 \<le> moves_d (data_c c)"

text \<open>The move count is not negative and every record posted so far is as it must be.\<close>

definition postedInv :: "game \<Rightarrow> bool" where
  "postedInv s \<longleftrightarrow> 0 \<le> moves s \<and> (\<forall>x \<in> set (posted s). recordOk (snd x))"

text \<open>A selection is never left behind in a game that has not started.\<close>

definition startedInv :: "game \<Rightarrow> bool" where
  "startedInv s \<longleftrightarrow> (flippedCards s \<noteq> [] \<longrightarrow> gameStarted s)"

text \<open>
  For a session that is never restarted: every match timeout that is pending or has
  fired was paid for by a move, and every record posted has a move in it.
\<close>

fun isRestart :: "event \<Rightarrow> bool" where
  "isRestart (Restart p) = True"
| "isRestart e = False"

fun isMatch :: "timer \<Rightarrow> bool" where
  "isMatch tm = (case callback tm of MatchCb a b \<Rightarrow> True | MismatchCb a b \<Rightarrow> False)"

definition countedInv :: "game \<Rightarrow> bool" where
  "countedInv s \<longleftrightarrow>
     matchedPairs s + int (length (filter isMatch (timers s))) \<le> moves s \<and>
     (\<forall>x \<in> set (posted s). 1 \<le> moves_d (data_c (snd x)))"

text \<open>Once the count is full in a started game, the won flag is set.\<close>

definition wonInv :: "game \<Rightarrow> bool" where
  "wonInv s \<longleftrightarrow> (matchedPairs s = totalPairs (difficulty s) \<and> gameStarted s \<longrightarrow> gameWon s)"

text \<open>
  The shape of a session without stale timeouts: twice the matched-pair count is the
  number of matched cards, the deck has \<open>2 * totalPairs\<close> cards, the selected identifiers
  are in the deck, and a timeout is pending exactly when two cards are selected, for
  those two cards.
\<close>

definition structInv :: "game \<Rightarrow> bool" where
  "structInv s \<longleftrightarrow>
     selectionInv s \<and>
     int (length (filter matched (cards s))) = 2 * matchedPairs s \<and>
     int (length (cards s)) = 2 * totalPairs (difficulty s) \<and>
     set (flippedCards s) \<subseteq> id_card ` set (cards s) \<and>
     (if length (flippedCards s) = 2
      then length (timers s) = 1 \<and>
           (callback (hd (timers s)) = MatchCb (flippedCards s ! 0) (flippedCards s ! 1) \<or>
            callback (hd (timers s)) = MismatchCb (flippedCards s ! 0) (flippedCards s ! 1))
      else timers s = [])"

text \<open>With it: the record is posted when the won flag is set, and at most once.\<close>

definition soloInv :: "game \<Rightarrow> bool" where
  "soloInv s \<longleftrightarrow>
     structInv s \<and> wonInv s \<and>
     (gameWon s \<longleftrightarrow> posted s \<noteq> []) \<and>
     (posted s = [] \<or>
      length (posted s) = 2 \<and> matchedPairs s = totalPairs (difficulty s))"

text \<open>The cards that the loop of \<open>initializeGame\<close> pushes, counter starting at \<open>k\<close>.\<close>

fun pairsFrom :: "int \<Rightarrow> item list \<Rightarrow> card list" where
  "pairsFrom k [] = []"
| "pairsFrom k (it # its) =
     \<lparr>id_card = k, symbol = item_symbol it, name = item_name it,
        matched = False, flipped = False\<rparr> #
     \<lparr>id_card = k + 1, symbol = item_symbol it, name = item_name it,
        matched = False, flipped = False\<rparr> #
     pairsFrom (k + 2) its"

text \<open>
  What a session shows at a moment: the won flag, the matched-pair count, the selection,
  the matched flag of each card, and for each \<open>postMessage\<close> call its target with the
  moves field and the score of the record.
\<close>

definition outcome :: "game \<Rightarrow> bool \<times> int \<times> int list \<times> bool list \<times> (target \<times> int \<times> int) list" where
  "outcome s =
     (gameWon s, matchedPairs s, flippedCards s, map matched (cards s),
      map (\<lambda>x. (fst x, moves_d (data_c (snd x)), score (snd x))) (posted s))"

subsection \<open>Sample sessions\<close>

text \<open>
  A medium game whose shuffle leaves the deck in the order it was built: the cards
  \<open>2i\<close> and \<open>2i + 1\<close> share a symbol.
\<close>

definition inOrder :: "nat list" where
  "inOrder = [0..<16]"

definition fresh :: game where
  "fresh = mount ''medium'' inOrder"

definition oneSelected :: game where
  "oneSelected = step (Click 0 0) fresh"

definition pendingPair :: game where
  "pendingPair = step (Click 10 1) oneSelected"

text \<open>
  New Game pressed while the match timeout of cards 0 and 1 is pending; then either a
  first card of the new session is selected, or the timeout fires at once.
\<close>

definition restartedStale :: game where
  "restartedStale = step (Click 20 2) (step (Restart inOrder) pendingPair)"

definition staleMatched :: game where
  "staleMatched = step (Fire 0) (step (Restart inOrder) pendingPair)"

text \<open>
  New Game pressed while the match timeout of cards 0 and 1 is pending; then cards 0
  and 2 of the new deck, which do not match, are selected. Two timeouts are pending:
  the old one, due at 1010 ms, and the new one, due at 1530 ms.
\<close>

definition staleBeforeMismatch :: "event list" where
  "staleBeforeMismatch = [Click 0 0, Click 10 1, Restart inOrder, Click 20 0, Click 30 2]"

definition mismatchPending :: game where
  "mismatchPending = run staleBeforeMismatch fresh"

text \<open>
  The pair 0, 1 is selected, New Game is pressed, and the same pair is selected again
  before the first timeout fires: both timeouts count the pair. Six more pairs bring
  the count to eight while the cards 14 and 15 are still face down.
\<close>

definition countedTwice :: "event list" where
  "countedTwice =
     [Click 0 0, Click 10 1, Restart inOrder, Click 20 0, Click 30 1, Fire 0, Fire 0,
      Click 2000 2, Click 2010 3, Fire 0,
      Click 4000 4, Click 4010 5, Fire 0,
      Click 6000 6, Click 6010 7, Fire 0,
      Click 8000 8, Click 8010 9, Fire 0,
      Click 10000 10, Click 10010 11, Fire 0,
      Click 12000 12, Click 12010 13, Fire 0]"

definition lastPair :: "event list" where
  "lastPair = [Click 14000 14, Click 14010 15]"

text \<open>
  Eight times the pair 0, 1 is selected and New Game is pressed, all within 230 ms; the
  eight timeouts then fire into the last session, and one card is clicked.
\<close>

definition restartedEightTimes :: "event list" where
  "restartedEightTimes =
     [Click 0 0, Click 10 1, Restart inOrder,
      Click 30 0, Click 40 1, Restart inOrder,
      Click 60 0, Click 70 1, Restart inOrder,
      Click 90 0, Click 100 1, Restart inOrder,
      Click 120 0, Click 130 1, Restart inOrder,
      Click 150 0, Click 160 1, Restart inOrder,
      Click 180 0, Click 190 1, Restart inOrder,
      Click 210 0, Click 220 1, Restart inOrder,
      Fire 0, Fire 0, Fire 0, Fire 0, Fire 0, Fire 0, Fire 0, Fire 0,
      Click 2000 2]"

section \<open>Deck builder: the deck of a new game\<close>

text \<open>The loop of \<open>initializeGame\<close>, with any array and counter to start from.\<close>

lemma foldl_pushPair:
  "foldl pushPair (acc, k) its = (acc @ pairsFrom k its, k + 2 * int (length its))"
  by (induction its arbitrary: acc k) (simp_all add: pushPair_def)

lemma createPairs_pairsFrom: "createPairs its = pairsFrom 0 its"
  by (simp add: createPairs_def foldl_pushPair)

lemma length_pairsFrom: "length (pairsFrom k its) = 2 * length its"
  by (induction its arbitrary: k) simp_all

lemma pairsFrom_id_lower: "c \<in> set (pairsFrom k its) \<Longrightarrow> k \<le> id_card c"
  by (induction its arbitrary: k) fastforce+

lemma distinct_pairsFrom: "distinct (map id_card (pairsFrom k its))"
proof (induction its arbitrary: k)
  case Nil
  show ?case by simp
next
  case (Cons it its)
  have "k \<notin> id_card ` set (pairsFrom (k + 2) its)"
    and "k + 1 \<notin> id_card ` set (pairsFrom (k + 2) its)"
    using pairsFrom_id_lower [of _ "k + 2" its] by fastforce+
  with Cons.IH [of "k + 2"] show ?case by simp
qed

lemma pairsFrom_fresh: "c \<in> set (pairsFrom k its) \<Longrightarrow> \<not> matched c \<and> \<not> flipped c"
  by (induction its arbitrary: k) auto

lemma pairsFrom_faces:
  "map (\<lambda>c. (symbol c, name c)) (pairsFrom k its) =
     concat (map (\<lambda>it. replicate 2 (item_symbol it, item_name it)) its)"
  by (induction its arbitrary: k) (simp_all add: numeral_2_eq_2)

lemma pairsFrom_symbol_count:
  "length (filter (\<lambda>c. symbol c = x) (pairsFrom k its)) =
     2 * length (filter (\<lambda>it. item_symbol it = x) its)"
  by (induction its arbitrary: k) simp_all

lemma pairsFrom_symbol_mem:
  "c \<in> set (pairsFrom k its) \<Longrightarrow> symbol c \<in> item_symbol ` set its"
  by (induction its arbitrary: k) auto

lemma distinct_filter_one:
  assumes "distinct (map f xs)" and "x \<in> f ` set xs"
  shows "length (filter (\<lambda>y. f y = x) xs) = 1"
  using assms
proof (induction xs)
  case Nil
  then show ?case by simp
next
  case (Cons a xs)
  show ?case
  proof (cases "f a = x")
    case True
    with Cons.prems have "x \<notin> f ` set xs" by simp
    then have "\<forall>y \<in> set xs. f y \<noteq> x" by blast
    then have "filter (\<lambda>y. f y = x) xs = []" by (simp add: filter_empty_conv)
    with True show ?thesis by simp
  next
    case False
    with Cons show ?thesis by auto
  qed
qed

lemma mset_shuffle: "mset (shuffle p xs) = mset xs"
proof (cases "sort p = [0..<length xs]")
  case True
  have "mset p = mset (sort p)" by simp
  with True have "mset p = mset [0..<length xs]" by simp
  then have "mset (map (\<lambda>i. xs ! i) p) = mset (map (\<lambda>i. xs ! i) [0..<length xs])"
    by (metis mset_map)
  then show ?thesis using True by (simp add: shuffle_def map_nth)
next
  case False
  then show ?thesis by (simp add: shuffle_def)
qed

lemma WW2_ITEMS_distinct: "distinct (map item_symbol WW2_ITEMS)"
  by (simp add: WW2_ITEMS_def)

lemma length_WW2_ITEMS: "length WW2_ITEMS = 12"
  by (simp add: WW2_ITEMS_def)

lemma totalPairs_cases: "totalPairs diff = 8 \<or> totalPairs diff = 12"
  by (simp add: totalPairs_def getGridSize_def)

lemma totalPairs_tiers:
  "totalPairs ''easy'' = 8 \<and> totalPairs ''medium'' = 8 \<and> totalPairs ''hard'' = 12"
  by (simp add: totalPairs_def getGridSize_def)

lemma length_gameDeck: "int (length (gameDeck diff)) = 2 * totalPairs diff"
  using totalPairs_cases [of diff]
  by (auto simp: gameDeck_def createPairs_pairsFrom length_pairsFrom length_WW2_ITEMS)

lemma gameDeck_symbol_twice:
  assumes "c \<in> set (gameDeck diff)"
  shows "length (filter (\<lambda>c'. symbol c' = symbol c) (gameDeck diff)) = 2"
proof -
  let ?its = "take (nat (totalPairs diff)) WW2_ITEMS"
  have d: "distinct (map item_symbol ?its)"
    using WW2_ITEMS_distinct by (simp add: take_map [symmetric])
  have "symbol c \<in> item_symbol ` set ?its"
    using assms by (simp add: gameDeck_def createPairs_pairsFrom pairsFrom_symbol_mem)
  with d have "length (filter (\<lambda>it. item_symbol it = symbol c) ?its) = 1"
    by (rule distinct_filter_one)
  then show ?thesis
    by (simp add: gameDeck_def createPairs_pairsFrom pairsFrom_symbol_count)
qed

lemma shuffle_filter_length:
  "length (filter P (shuffle p xs)) = length (filter P xs)"
proof -
  have "mset (filter P (shuffle p xs)) = mset (filter P xs)"
    by (simp add: mset_shuffle)
  then show ?thesis by (rule mset_eq_length)
qed

lemma set_shuffle: "set (shuffle p xs) = set xs"
  using mset_shuffle [of p xs] by (rule mset_eq_setD)

lemma length_shuffle: "length (shuffle p xs) = length xs"
  using mset_shuffle [of p xs] by (rule mset_eq_length)

lemma distinct_map_shuffle: "distinct (map f (shuffle p xs)) = distinct (map f xs)"
proof -
  have "mset (map f (shuffle p xs)) = mset (map f xs)"
    by (simp add: mset_shuffle)
  then show ?thesis by (rule mset_eq_imp_distinct_iff)
qed

lemma cards_initializeGame: "cards (initializeGame p s) = shuffle p (gameDeck (difficulty s))"
  by (simp add: initializeGame_def)

text \<open>
  Claim C2. For every difficulty, the deck that \<open>initializeGame\<close> stores (at mount and at
  every restart, for every outcome \<open>p\<close> of the shuffle) has \<open>2 * totalPairs\<close> cards, where
  \<open>totalPairs\<close> is 8 for easy and medium and 12 for hard; its symbols and names are
  those of the first \<open>totalPairs\<close> catalog items, each twice, in some order; each symbol
  in the deck is on exactly two cards; no two cards share an identifier; every card is
  neither matched nor flipped.
\<close>

theorem deck_built:
  "(let deck = cards (initializeGame p s); diff = difficulty s in
     int (length deck) = 2 * totalPairs diff \<and>
     totalPairs ''easy'' = 8 \<and> totalPairs ''medium'' = 8 \<and> totalPairs ''hard'' = 12 \<and>
     mset (map (\<lambda>c. (symbol c, name c)) deck) =
       mset (concat (map (\<lambda>it. replicate 2 (item_symbol it, item_name it))
                         (take (nat (totalPairs diff)) WW2_ITEMS))) \<and>
     (\<forall>c \<in> set deck. length (filter (\<lambda>c'. symbol c' = symbol c) deck) = 2) \<and>
     distinct (map id_card deck) \<and>
     (\<forall>c \<in> set deck. \<not> matched c \<and> \<not> flipped c))"
proof -
  let ?deck = "shuffle p (gameDeck (difficulty s))"
  have 1: "int (length ?deck) = 2 * totalPairs (difficulty s)"
    by (simp add: length_shuffle length_gameDeck)
  have "mset (map (\<lambda>c. (symbol c, name c)) ?deck) =
          mset (map (\<lambda>c. (symbol c, name c)) (gameDeck (difficulty s)))"
    by (simp add: mset_shuffle)
  then have 3: "mset (map (\<lambda>c. (symbol c, name c)) ?deck) =
       mset (concat (map (\<lambda>it. replicate 2 (item_symbol it, item_name it))
                         (take (nat (totalPairs (difficulty s))) WW2_ITEMS)))"
    by (simp add: gameDeck_def createPairs_pairsFrom pairsFrom_faces)
  have 4: "\<forall>c \<in> set ?deck. length (filter (\<lambda>c'. symbol c' = symbol c) ?deck) = 2"
    by (simp add: set_shuffle shuffle_filter_length gameDeck_symbol_twice)
  have 5: "distinct (map id_card ?deck)"
    by (simp add: distinct_map_shuffle gameDeck_def createPairs_pairsFrom distinct_pairsFrom)
  have 6: "\<forall>c \<in> set ?deck. \<not> matched c \<and> \<not> flipped c"
    by (simp add: set_shuffle gameDeck_def createPairs_pairsFrom pairsFrom_fresh)
  show ?thesis
    unfolding Let_def cards_initializeGame
    using 1 3 4 5 6 totalPairs_tiers by blast
qed

text \<open>
  The theorem at the hard game whose shuffle reverses the deck: 24 cards, the first of
  them the second Military Star, whose symbol is on two cards.
\<close>

theorem deck_built_witness:
  "hd (cards (initializeGame (rev [0..<24]) (initial ''hard''))) \<in>
     set (cards (initializeGame (rev [0..<24]) (initial ''hard''))) \<and>
   id_card (hd (cards (initializeGame (rev [0..<24]) (initial ''hard'')))) = 23 \<and>
   length (cards (initializeGame (rev [0..<24]) (initial ''hard''))) = 24 \<and>
   length (filter (\<lambda>c'. symbol c' =
                     symbol (hd (cards (initializeGame (rev [0..<24]) (initial ''hard'')))))
             (cards (initializeGame (rev [0..<24]) (initial ''hard'')))) = 2 \<and>
   distinct (map id_card (cards (initializeGame (rev [0..<24]) (initial ''hard'')))) \<and>
   \<not> matched (hd (cards (initializeGame (rev [0..<24]) (initial ''hard'')))) \<and>
   \<not> flipped (hd (cards (initializeGame (rev [0..<24]) (initial ''hard''))))"
proof -
  let ?deck = "cards (initializeGame (rev [0..<24]) (initial ''hard''))"
  have d: "difficulty (initial ''hard'') = ''hard''"
    by (simp add: initial_def)
  have m: "hd ?deck \<in> set ?deck" and i: "id_card (hd ?deck) = 23"
    by code_simp+
  note t = deck_built [of "rev [0..<24]" "initial ''hard''", unfolded Let_def d]
  from t have "int (length ?deck) = 2 * totalPairs ''hard''" by (rule conjunct1)
  with t have l: "length ?deck = 24" by simp
  from t m have c: "length (filter (\<lambda>c'. symbol c' = symbol (hd ?deck)) ?deck) = 2"
    and f: "\<not> matched (hd ?deck)" "\<not> flipped (hd ?deck)" by blast+
  from t have di: "distinct (map id_card ?deck)" by blast
  from m i l c di f show ?thesis by (intro conjI)
qed

section \<open>Game engine\<close>

subsection \<open>Looking a card up\<close>

lemma findCard_None: "findCard cs i = None \<longleftrightarrow> i \<notin> id_card ` set cs"
  by (auto simp: findCard_def find_None_iff)

lemma findCard_Some: "findCard cs i = Some c \<Longrightarrow> c \<in> set cs \<and> id_card c = i"
  by (auto simp: findCard_def find_Some_iff)

lemma findCard_distinct:
  "distinct (map id_card cs) \<Longrightarrow> c \<in> set cs \<Longrightarrow> findCard cs (id_card c) = Some c"
  by (induction cs) (auto simp: findCard_def)

lemma findCard_None_neq: "findCard cs i = None \<Longrightarrow> c \<in> set cs \<Longrightarrow> id_card c \<noteq> i"
  by (auto simp: findCard_None)


subsection \<open>What a click does\<close>

lemma handleCardClick_rejected:
  "rejects s cardId \<Longrightarrow>
   handleCardClick now cardId s =
     (if gameStarted s then s else s\<lparr>gameStarted := True, startTime := now\<rparr>)"
  by (auto simp: rejects_def handleCardClick_def Let_def)

lemma handleCardClick_accepted:
  "\<not> rejects s cardId \<Longrightarrow>
   flippedCards (handleCardClick now cardId s) = flippedCards s @ [cardId] \<and>
   cards (handleCardClick now cardId s) =
     map (\<lambda>c. if id_card c = cardId then c\<lparr>flipped := True\<rparr> else c) (cards s) \<and>
   matchedPairs (handleCardClick now cardId s) = matchedPairs s \<and>
   moves (handleCardClick now cardId s) =
     (if length (flippedCards s) = 1 then moves s + 1 else moves s)"
  by (auto simp: rejects_def handleCardClick_def Let_def)

lemma handleCardClick_second:
  assumes "flippedCards s = [a]" and "\<not> rejects s cardId"
  shows "handleCardClick now cardId s =
     s\<lparr>gameStarted := True,
       startTime := (if gameStarted s then startTime s else now),
       flippedCards := [a, cardId],
       cards := map (\<lambda>c. if id_card c = cardId then c\<lparr>flipped := True\<rparr> else c) (cards s),
       moves := moves s + 1,
       timers := timers s @
         [if (case findCard (cards s) a of None \<Rightarrow> False
              | Some f \<Rightarrow> (case findCard (cards s) cardId of None \<Rightarrow> False
                           | Some g \<Rightarrow> symbol f = symbol g))
          then \<lparr>due = now + 1000, callback = MatchCb a cardId\<rparr>
          else \<lparr>due = now + 1500, callback = MismatchCb a cardId\<rparr>]\<rparr>"
  using assms by (auto simp: rejects_def handleCardClick_def Let_def)

lemma ids_flip:
  "map id_card (map (\<lambda>c. if id_card c = i then c\<lparr>flipped := True\<rparr> else c) cs) = map id_card cs"
  by (induction cs) auto

lemma ids_match:
  "map id_card (map (\<lambda>c. if id_card c = a \<or> id_card c = b
                           then c\<lparr>matched := True, flipped := False\<rparr> else c) cs) = map id_card cs"
  by (induction cs) auto

lemma ids_mismatch:
  "map id_card (map (\<lambda>c. if id_card c = a \<or> id_card c = b
                           then c\<lparr>flipped := False\<rparr> else c) cs) = map id_card cs"
  by (induction cs) auto


lemma in_set_map_obtain: "c \<in> set (map h cs) \<Longrightarrow> \<exists>c0 \<in> set cs. c = h c0"
  by auto

lemma match_marks:
  assumes "c \<in> set (map (\<lambda>c. if id_card c = a \<or> id_card c = b
                        then c\<lparr>matched := True, flipped := False\<rparr> else c) cs)"
    and "id_card c = a \<or> id_card c = b"
  shows "matched c \<and> \<not> flipped c"
proof -
  from in_set_map_obtain [OF assms(1)] obtain c0 where
    c: "c = (if id_card c0 = a \<or> id_card c0 = b
             then c0\<lparr>matched := True, flipped := False\<rparr> else c0)" by blast
  show ?thesis
  proof (cases "id_card c0 = a \<or> id_card c0 = b")
    case True
    with c show ?thesis by simp
  next
    case False
    with c assms(2) show ?thesis by simp
  qed
qed

lemma mismatch_marks:
  assumes "c \<in> set (map (\<lambda>c. if id_card c = a \<or> id_card c = b
                        then c\<lparr>flipped := False\<rparr> else c) cs)"
    and "id_card c = a \<or> id_card c = b"
  shows "\<not> flipped c \<and> (\<exists>c0 \<in> set cs. id_card c0 = id_card c \<and> matched c0 = matched c)"
proof -
  from in_set_map_obtain [OF assms(1)] obtain c0 where c0: "c0 \<in> set cs" and
    c: "c = (if id_card c0 = a \<or> id_card c0 = b then c0\<lparr>flipped := False\<rparr> else c0)" by blast
  show ?thesis
  proof (cases "id_card c0 = a \<or> id_card c0 = b")
    case True
    with c have "\<not> flipped c" "id_card c0 = id_card c" "matched c0 = matched c" by simp_all
    with c0 show ?thesis by blast
  next
    case False
    with c assms(2) show ?thesis by simp
  qed
qed

lemma flip_keeps:
  assumes "c \<in> set (map (\<lambda>c. if id_card c = i then c\<lparr>flipped := True\<rparr> else c) cs)"
  shows "\<exists>c0 \<in> set cs. id_card c0 = id_card c \<and> matched c0 = matched c"
proof -
  from in_set_map_obtain [OF assms] obtain c0 where c0: "c0 \<in> set cs" and
    c: "c = (if id_card c0 = i then c0\<lparr>flipped := True\<rparr> else c0)" by blast
  from c have "id_card c0 = id_card c" "matched c0 = matched c"
    by (simp_all split: if_splits)
  with c0 show ?thesis by blast
qed

subsection \<open>The invariant of the selection set\<close>

lemma selectionInv_click: "selectionInv s \<Longrightarrow> selectionInv (handleCardClick now cardId s)"
proof (cases "rejects s cardId")
  case True
  assume "selectionInv s"
  then show ?thesis
    by (simp add: handleCardClick_rejected [OF True] selectionInv_def)
next
  case False
  assume inv: "selectionInv s"
  note acc = handleCardClick_accepted [OF False, of now]
  from False have len: "length (flippedCards s) \<noteq> 2" and new: "cardId \<notin> set (flippedCards s)"
    and unm: "\<not> (case findCard (cards s) cardId of Some c \<Rightarrow> matched c | None \<Rightarrow> False)"
    by (simp_all add: rejects_def)
  have nomatch: "\<And>c. c \<in> set (cards s) \<Longrightarrow> matched c \<Longrightarrow> id_card c \<noteq> cardId"
  proof
    fix c assume c: "c \<in> set (cards s)" "matched c" "id_card c = cardId"
    from inv c(1) have "findCard (cards s) (id_card c) = Some c"
      by (simp add: selectionInv_def findCard_distinct)
    with c(2,3) unm show False by simp
  qed
  have ids: "map id_card (cards (handleCardClick now cardId s)) = map id_card (cards s)"
    using acc by (simp add: comp_def if_distrib [of id_card] cong: if_cong)
  show ?thesis
    unfolding selectionInv_def
  proof (intro conjI ballI impI)
    show "length (flippedCards (handleCardClick now cardId s)) \<le> 2"
      using inv len acc by (simp add: selectionInv_def)
    show "distinct (flippedCards (handleCardClick now cardId s))"
      using inv new acc by (simp add: selectionInv_def)
    show "distinct (map id_card (cards (handleCardClick now cardId s)))"
      using inv ids by (simp add: selectionInv_def)
  next
    fix c assume "c \<in> set (cards (handleCardClick now cardId s))" and m: "matched c"
    then obtain c0 where c0: "c0 \<in> set (cards s)"
      and c: "c = (if id_card c0 = cardId then c0\<lparr>flipped := True\<rparr> else c0)"
      using acc by auto
    from c m have m0: "matched c0" and i0: "id_card c = id_card c0"
      by (auto split: if_splits)
    from inv c0 m0 have "id_card c0 \<notin> set (flippedCards s)"
      by (simp add: selectionInv_def)
    moreover from nomatch c0 m0 have "id_card c0 \<noteq> cardId" by blast
    ultimately show "id_card c \<notin> set (flippedCards (handleCardClick now cardId s))"
      using acc i0 by simp
  qed
qed

lemma selectionInv_callback: "selectionInv s \<Longrightarrow> selectionInv (runCallback cb s)"
  by (cases cb) (simp_all add: selectionInv_def comp_def if_distrib [of id_card] cong: if_cong)

lemma selectionInv_timers: "selectionInv (s\<lparr>timers := ts\<rparr>) = selectionInv s"
  by (simp add: selectionInv_def)

lemma selectionInv_fire: "selectionInv s \<Longrightarrow> selectionInv (fire k s)"
  by (simp add: fire_def selectionInv_callback selectionInv_timers)

lemma selectionInv_tick: "selectionInv s \<Longrightarrow> selectionInv (tick now s)"
  by (simp add: tick_def selectionInv_def)

lemma selectionInv_winEffect: "selectionInv s \<Longrightarrow> selectionInv (winEffect prev s)"
  by (simp add: winEffect_def selectionInv_def)

lemma selectionInv_initializeGame: "selectionInv (initializeGame p s)"
  by (simp add: selectionInv_def initializeGame_def distinct_map_shuffle gameDeck_def
      createPairs_pairsFrom distinct_pairsFrom)

lemma selectionInv_step: "selectionInv s \<Longrightarrow> selectionInv (step e s)"
  by (cases e)
     (simp_all add: step_def selectionInv_winEffect selectionInv_click selectionInv_initializeGame
        selectionInv_fire selectionInv_tick)

lemma selectionInv_run: "selectionInv s \<Longrightarrow> selectionInv (run es s)"
  by (induction es arbitrary: s) (simp_all add: run_def selectionInv_step)

section \<open>The claims about the click handler and the timeouts\<close>

text \<open>
  Claim C3, as amended. A \<open>handleCardClick\<close> call that takes one of the three early
  returns (two cards already selected, the card already selected, the card already
  matched) leaves the cards, the selection, the move count, the matched-pair count, the
  won flag, the elapsed time, the pending timeouts and the posted records as they are;
  when the game has already started it leaves the whole state as it is. The start latch
  stands before the early returns: in a game that has not started the call still sets
  the started flag and stores the clock reading as start time.
\<close>

theorem rejected_click:
  assumes "rejects s cardId"
  shows "handleCardClick now cardId s =
     (if gameStarted s then s else s\<lparr>gameStarted := True, startTime := now\<rparr>)"
  using assms by (rule handleCardClick_rejected)

text \<open>
  The theorem at a third click while the pair 0, 1 waits for its timeout: nothing changes.
\<close>

theorem rejected_click_witness:
  "rejects pendingPair 2 \<and> gameStarted pendingPair \<and>
   handleCardClick 20 2 pendingPair = pendingPair"
proof -
  have r: "rejects pendingPair 2" by code_simp
  have g: "gameStarted pendingPair" by code_simp
  from rejected_click [OF r, of 20] g have "handleCardClick 20 2 pendingPair = pendingPair"
    by simp
  with r g show ?thesis by (intro conjI)
qed

text \<open>
  Claim C3 as it is written fails. In \<open>staleMatched\<close> the game has not started and card
  0 is matched; the click on card 0 is rejected by the third early return, and yet the
  started flag and the start time change.
\<close>

theorem rejected_click_counterexample:
  "rejects staleMatched 0 \<and>
   (case findCard (cards staleMatched) 0 of Some c \<Rightarrow> matched c | None \<Rightarrow> False) \<and>
   \<not> gameStarted staleMatched \<and>
   gameStarted (handleCardClick 5000 0 staleMatched) \<and>
   startTime staleMatched = 0 \<and>
   startTime (handleCardClick 5000 0 staleMatched) = 5000 \<and>
   handleCardClick 5000 0 staleMatched \<noteq> staleMatched"
  by code_simp

text \<open>
  In every state a run reaches, a non-empty selection means the game has started, so
  the first two early returns never meet a game that has not started.
\<close>

lemma runCallback_selection: "flippedCards (runCallback cb s) = []"
  by (cases cb) simp_all

lemma startedInv_winEffect: "startedInv (winEffect prev s) = startedInv s"
  by (simp add: startedInv_def winEffect_def)

lemma startedInv_act: "startedInv s \<Longrightarrow> startedInv (act e s)"
proof (cases e)
  case (Click now cardId)
  assume "startedInv s"
  then show ?thesis
    by (auto simp: Click startedInv_def handleCardClick_def Let_def)
next
  case (Restart p)
  show ?thesis
    by (simp add: Restart startedInv_def initializeGame_def)
next
  case (Fire k)
  assume "startedInv s"
  then show ?thesis
    by (simp add: Fire startedInv_def fire_def runCallback_selection)
next
  case (Tick now)
  assume "startedInv s"
  then show ?thesis
    by (simp add: Tick startedInv_def tick_def)
qed

lemma startedInv_step: "startedInv s \<Longrightarrow> startedInv (step e s)"
  by (simp add: step_def startedInv_winEffect startedInv_act)

lemma startedInv_run: "startedInv s \<Longrightarrow> startedInv (run es s)"
  by (induction es arbitrary: s) (simp_all add: run_def startedInv_step)

lemma started_when_selected:
  "flippedCards (run es (mount diff p)) \<noteq> [] \<Longrightarrow> gameStarted (run es (mount diff p))"
proof -
  have "startedInv (mount diff p)"
    by (simp add: startedInv_def mount_def initializeGame_def)
  then have "startedInv (run es (mount diff p))" by (rule startedInv_run)
  then show "flippedCards (run es (mount diff p)) \<noteq> [] \<Longrightarrow> gameStarted (run es (mount diff p))"
    by (simp add: startedInv_def)
qed

text \<open>
  On the page the claim holds as it is written: a click on an enabled button that is
  rejected (two cards are already selected) leaves the whole state as it is.
\<close>

lemma rejected_enabled_click:
  assumes inv: "selectionInv s" and st: "startedInv s"
    and en: "enabled s (Click now cardId)" and rej: "rejects s cardId"
  shows "handleCardClick now cardId s = s"
proof -
  from en obtain c where c: "c \<in> set (cards s)" "id_card c = cardId" "\<not> matched c"
    and new: "cardId \<notin> set (flippedCards s)" by auto
  from inv c(1) have "findCard (cards s) (id_card c) = Some c"
    by (simp add: selectionInv_def findCard_distinct)
  with c(2,3) have "\<not> (case findCard (cards s) cardId of Some c \<Rightarrow> matched c | None \<Rightarrow> False)"
    by simp
  with rej new have "length (flippedCards s) = 2" by (simp add: rejects_def)
  then have "flippedCards s \<noteq> []" by auto
  with st have "gameStarted s" by (simp add: startedInv_def)
  with handleCardClick_rejected [OF rej, of now] show ?thesis by simp
qed

text \<open>
  Claim C6. When one card \<open>a\<close> is selected and a valid click on \<open>cardId\<close> completes the
  selection with a card of the same symbol, the click schedules the match callback
  1000 ms later; when that timeout fires, both cards are in the deck with
  \<open>matched = true\<close> and \<open>flipped = false\<close>, the matched-pair count is one more than
  before, and the selection is empty.
\<close>

theorem match_resolution:
  assumes sel: "flippedCards s = [a]"
    and ok: "\<not> rejects s cardId"
    and f: "findCard (cards s) a = Some f"
    and g: "findCard (cards s) cardId = Some g"
    and sym: "symbol f = symbol g"
  shows "(let s' = handleCardClick now cardId s; s'' = fire (length (timers s)) s' in
     flippedCards s' = [a, cardId] \<and>
     timers s' = timers s @ [\<lparr>due = now + 1000, callback = MatchCb a cardId\<rparr>] \<and>
     a \<in> id_card ` set (cards s'') \<and> cardId \<in> id_card ` set (cards s'') \<and>
     (\<forall>c \<in> set (cards s''). id_card c = a \<or> id_card c = cardId \<longrightarrow> matched c \<and> \<not> flipped c) \<and>
     matchedPairs s' = matchedPairs s \<and>
     matchedPairs s'' = matchedPairs s + 1 \<and>
     flippedCards s'' = [] \<and>
     timers s'' = timers s)"
proof -
  let ?s' = "handleCardClick now cardId s"
  let ?s'' = "fire (length (timers s)) ?s'"
  let ?flip = "map (\<lambda>c. if id_card c = cardId then c\<lparr>flipped := True\<rparr> else c) (cards s)"
  from findCard_Some [OF f] findCard_Some [OF g]
  have mem: "a \<in> set (map id_card (cards s))" "cardId \<in> set (map id_card (cards s))" by auto
  have t: "timers ?s' = timers s @ [\<lparr>due = now + 1000, callback = MatchCb a cardId\<rparr>]"
    and sel': "flippedCards ?s' = [a, cardId]" and mp': "matchedPairs ?s' = matchedPairs s"
    and c': "cards ?s' = ?flip"
    using f g sym by (simp_all add: handleCardClick_second [OF sel ok])
  have fired: "?s'' = runCallback (MatchCb a cardId) (?s'\<lparr>timers := timers s\<rparr>)"
    by (simp add: fire_def t)
  have c'': "cards ?s'' =
      map (\<lambda>c. if id_card c = a \<or> id_card c = cardId
                then c\<lparr>matched := True, flipped := False\<rparr> else c) ?flip"
    and rest: "matchedPairs ?s'' = matchedPairs s + 1" "flippedCards ?s'' = []"
      "timers ?s'' = timers s"
    by (simp_all add: fired c' mp')
  have ids: "map id_card (cards ?s'') = map id_card (cards s)"
    by (simp only: c'' ids_match ids_flip)
  have here: "a \<in> id_card ` set (cards ?s'')" "cardId \<in> id_card ` set (cards ?s'')"
    using mem ids by (simp_all only: set_map [symmetric])
  have marks: "\<forall>c \<in> set (cards ?s''). id_card c = a \<or> id_card c = cardId \<longrightarrow> matched c \<and> \<not> flipped c"
    unfolding c'' using match_marks by blast
  show ?thesis
    unfolding Let_def using sel' t here marks mp' rest by blast
qed



text \<open>The theorem at the second click of the pair 0, 1 (both Fighter Plane).\<close>

theorem match_resolution_witness:
  "flippedCards oneSelected = [0] \<and> \<not> rejects oneSelected 1 \<and>
   symbol (the (findCard (cards oneSelected) 0)) = symbol (the (findCard (cards oneSelected) 1)) \<and>
   timers (handleCardClick 10 1 oneSelected) = [\<lparr>due = 1010, callback = MatchCb 0 1\<rparr>] \<and>
   matchedPairs (fire 0 (handleCardClick 10 1 oneSelected)) = 1 \<and>
   flippedCards (fire 0 (handleCardClick 10 1 oneSelected)) = []"
proof -
  have sel: "flippedCards oneSelected = [0]" and ok: "\<not> rejects oneSelected 1"
    and f: "findCard (cards oneSelected) 0 = Some (the (findCard (cards oneSelected) 0))"
    and g: "findCard (cards oneSelected) 1 = Some (the (findCard (cards oneSelected) 1))"
    and sym: "symbol (the (findCard (cards oneSelected) 0)) =
              symbol (the (findCard (cards oneSelected) 1))"
    and ts: "timers oneSelected = []" and mp: "matchedPairs oneSelected = 0"
    by code_simp+
  note t = match_resolution [OF sel ok f g sym, of 10, unfolded Let_def ts mp]
  from t have "timers (handleCardClick 10 1 oneSelected) = [\<lparr>due = 1010, callback = MatchCb 0 1\<rparr>]"
    and "matchedPairs (fire 0 (handleCardClick 10 1 oneSelected)) = 1"
    and "flippedCards (fire 0 (handleCardClick 10 1 oneSelected)) = []"
    by simp_all
  with sel ok sym show ?thesis by (intro conjI)
qed

text \<open>
  The mismatch branch when nothing comes between the click and its timeout. In a state
  that satisfies the invariant of the selection set, when one card \<open>a\<close> is selected and
  a valid click on \<open>cardId\<close> completes the selection with a card of another symbol, the
  click schedules the mismatch callback 1500 ms later; when that timeout fires on the
  state the click left, both cards are in the deck with \<open>flipped = false\<close> and
  \<open>matched = false\<close>, the selection is empty, and the matched-pair count is what it was.
\<close>

lemma mismatch_fired_at_once:
  assumes inv: "selectionInv s"
    and sel: "flippedCards s = [a]"
    and ok: "\<not> rejects s cardId"
    and f: "findCard (cards s) a = Some f"
    and g: "findCard (cards s) cardId = Some g"
    and sym: "symbol f \<noteq> symbol g"
  shows "(let s' = handleCardClick now cardId s; s'' = fire (length (timers s)) s' in
     flippedCards s' = [a, cardId] \<and>
     timers s' = timers s @ [\<lparr>due = now + 1500, callback = MismatchCb a cardId\<rparr>] \<and>
     a \<in> id_card ` set (cards s'') \<and> cardId \<in> id_card ` set (cards s'') \<and>
     (\<forall>c \<in> set (cards s''). id_card c = a \<or> id_card c = cardId \<longrightarrow> \<not> flipped c \<and> \<not> matched c) \<and>
     flippedCards s'' = [] \<and>
     matchedPairs s'' = matchedPairs s \<and>
     timers s'' = timers s)"
proof -
  let ?s' = "handleCardClick now cardId s"
  let ?s'' = "fire (length (timers s)) ?s'"
  let ?flip = "map (\<lambda>c. if id_card c = cardId then c\<lparr>flipped := True\<rparr> else c) (cards s)"
  from findCard_Some [OF f] findCard_Some [OF g]
  have mem: "a \<in> set (map id_card (cards s))" "cardId \<in> set (map id_card (cards s))" by auto
  have unm: "\<not> matched c" if c: "c \<in> set (cards s)" and i: "id_card c = a \<or> id_card c = cardId" for c
  proof -
    from inv c have fc: "findCard (cards s) (id_card c) = Some c"
      by (simp add: selectionInv_def findCard_distinct)
    from i show ?thesis
    proof
      assume "id_card c = a"
      with inv sel c show ?thesis by (auto simp: selectionInv_def)
    next
      assume "id_card c = cardId"
      with fc ok show ?thesis by (auto simp: rejects_def)
    qed
  qed
  have t: "timers ?s' = timers s @ [\<lparr>due = now + 1500, callback = MismatchCb a cardId\<rparr>]"
    and sel': "flippedCards ?s' = [a, cardId]" and mp': "matchedPairs ?s' = matchedPairs s"
    and c': "cards ?s' = ?flip"
    using f g sym by (simp_all add: handleCardClick_second [OF sel ok])
  have fired: "?s'' = runCallback (MismatchCb a cardId) (?s'\<lparr>timers := timers s\<rparr>)"
    by (simp add: fire_def t)
  have c'': "cards ?s'' =
      map (\<lambda>c. if id_card c = a \<or> id_card c = cardId then c\<lparr>flipped := False\<rparr> else c) ?flip"
    and rest: "matchedPairs ?s'' = matchedPairs s" "flippedCards ?s'' = []"
      "timers ?s'' = timers s"
    by (simp_all add: fired c' mp')
  have ids: "map id_card (cards ?s'') = map id_card (cards s)"
    by (simp only: c'' ids_mismatch ids_flip)
  have here: "a \<in> id_card ` set (cards ?s'')" "cardId \<in> id_card ` set (cards ?s'')"
    using mem ids by (simp_all only: set_map [symmetric])
  have marks: "\<not> flipped c \<and> \<not> matched c"
    if c: "c \<in> set (cards ?s'')" and i: "id_card c = a \<or> id_card c = cardId" for c
  proof -
    from mismatch_marks [OF c [unfolded c''] i]
    obtain c1 where nf: "\<not> flipped c" and c1: "c1 \<in> set ?flip"
      and e1: "id_card c1 = id_card c" "matched c1 = matched c" by blast
    from flip_keeps [OF c1] obtain c0 where c0: "c0 \<in> set (cards s)"
      and e0: "id_card c0 = id_card c1" "matched c0 = matched c1" by blast
    from unm [OF c0] i e0 e1 have "\<not> matched c" by simp
    with nf show ?thesis by simp
  qed
  show ?thesis
    unfolding Let_def using sel' t here marks rest by blast
qed



text \<open>The lemma at the click on card 2 (Helicopter) after card 0 (Fighter Plane).\<close>

lemma mismatch_fired_at_once_example:
  "selectionInv oneSelected \<and> flippedCards oneSelected = [0] \<and> \<not> rejects oneSelected 2 \<and>
   symbol (the (findCard (cards oneSelected) 0)) \<noteq> symbol (the (findCard (cards oneSelected) 2)) \<and>
   timers (handleCardClick 10 2 oneSelected) = [\<lparr>due = 1510, callback = MismatchCb 0 2\<rparr>] \<and>
   matchedPairs (fire 0 (handleCardClick 10 2 oneSelected)) = 0 \<and>
   flippedCards (fire 0 (handleCardClick 10 2 oneSelected)) = []"
proof -
  have inv: "selectionInv oneSelected"
    and sel: "flippedCards oneSelected = [0]" and ok: "\<not> rejects oneSelected 2"
    and f: "findCard (cards oneSelected) 0 = Some (the (findCard (cards oneSelected) 0))"
    and g: "findCard (cards oneSelected) 2 = Some (the (findCard (cards oneSelected) 2))"
    and sym: "symbol (the (findCard (cards oneSelected) 0)) \<noteq>
              symbol (the (findCard (cards oneSelected) 2))"
    and ts: "timers oneSelected = []" and mp: "matchedPairs oneSelected = 0"
    by code_simp+
  note t = mismatch_fired_at_once [OF inv sel ok f g sym, of 10, unfolded Let_def ts mp]
  from t have "timers (handleCardClick 10 2 oneSelected) = [\<lparr>due = 1510, callback = MismatchCb 0 2\<rparr>]"
    and "matchedPairs (fire 0 (handleCardClick 10 2 oneSelected)) = 0"
    and "flippedCards (fire 0 (handleCardClick 10 2 oneSelected)) = []"
    by simp_all
  with inv sel ok sym show ?thesis by (intro conjI)
qed

text \<open>
  Claim C8. A \<open>handleCardClick\<close> call that takes none of the early returns adds one to
  the move count exactly when it brings the selection to two cards, whatever the two
  symbols are; when it leaves the selection at another length, the move count is what
  it was.
\<close>

theorem move_count:
  assumes "\<not> rejects s cardId"
  shows "(length (flippedCards (handleCardClick now cardId s)) = 2 \<longleftrightarrow>
            moves (handleCardClick now cardId s) = moves s + 1) \<and>
         (length (flippedCards (handleCardClick now cardId s)) \<noteq> 2 \<longrightarrow>
            moves (handleCardClick now cardId s) = moves s)"
  using handleCardClick_accepted [OF assms, of now] by auto


text \<open>The theorem at the first click of a game and at the second.\<close>

theorem move_count_witness:
  "\<not> rejects fresh 0 \<and>
   length (flippedCards (handleCardClick 0 0 fresh)) = 1 \<and>
   moves (handleCardClick 0 0 fresh) = moves fresh \<and>
   \<not> rejects oneSelected 2 \<and>
   length (flippedCards (handleCardClick 10 2 oneSelected)) = 2 \<and>
   moves (handleCardClick 10 2 oneSelected) = moves oneSelected + 1"
proof -
  have r0: "\<not> rejects fresh 0" and l0: "length (flippedCards (handleCardClick 0 0 fresh)) = 1"
    and r1: "\<not> rejects oneSelected 2"
    and l1: "length (flippedCards (handleCardClick 10 2 oneSelected)) = 2"
    by code_simp+
  from move_count [OF r0, of 0] l0 have m0: "moves (handleCardClick 0 0 fresh) = moves fresh"
    by simp
  from move_count [OF r1, of 10] l1
  have m1: "moves (handleCardClick 10 2 oneSelected) = moves oneSelected + 1"
    by simp
  from r0 l0 m0 r1 l1 m1 show ?thesis by (intro conjI)
qed

text \<open>
  Claim C9. In every state that a run of events reaches from the mount (any clicks,
  restarts, timeouts fired in any order, ticks), the selection has at most two
  members, no member twice, and no identifier of a matched card, and no two cards of
  the deck share an identifier. \<open>handleCardClick\<close>, both callbacks, a firing timeout and
  \<open>initializeGame\<close> each preserve this invariant.
\<close>

theorem selection_invariant:
  "selectionInv (run es (mount diff p)) \<and>
   (selectionInv s \<longrightarrow>
      selectionInv (handleCardClick now cardId s) \<and>
      selectionInv (runCallback (MatchCb firstId secondId) s) \<and>
      selectionInv (runCallback (MismatchCb firstId secondId) s) \<and>
      selectionInv (fire k s)) \<and>
   selectionInv (initializeGame p' s)"
proof (intro conjI impI)
  show "selectionInv (run es (mount diff p))"
    unfolding mount_def by (rule selectionInv_run [OF selectionInv_initializeGame])
  show "selectionInv (initializeGame p' s)"
    by (rule selectionInv_initializeGame)
next
  assume inv: "selectionInv s"
  show "selectionInv (handleCardClick now cardId s)"
    using inv by (rule selectionInv_click)
  show "selectionInv (runCallback (MatchCb firstId secondId) s)"
    using inv by (rule selectionInv_callback)
  show "selectionInv (runCallback (MismatchCb firstId secondId) s)"
    using inv by (rule selectionInv_callback)
  show "selectionInv (fire k s)"
    using inv by (rule selectionInv_fire)
qed


text \<open>
  The theorem at the state with card 0 selected: the invariant holds there, and after
  the click on card 1, after either callback on 0 and 1, and after a restart.
\<close>

theorem selection_invariant_witness:
  "selectionInv oneSelected \<and>
   selectionInv (run [Click 0 0, Click 10 1, Fire 0] (mount ''medium'' inOrder)) \<and>
   selectionInv (handleCardClick 10 1 oneSelected) \<and>
   selectionInv (runCallback (MatchCb 0 1) oneSelected) \<and>
   selectionInv (runCallback (MismatchCb 0 1) oneSelected) \<and>
   selectionInv (fire 0 oneSelected) \<and>
   selectionInv (initializeGame inOrder oneSelected)"
proof -
  have inv: "selectionInv oneSelected" by code_simp
  note t = selection_invariant [of "[Click 0 0, Click 10 1, Fire 0]" "''medium''" inOrder
      oneSelected 10 1 0 1 0 inOrder]
  from t have r: "selectionInv (run [Click 0 0, Click 10 1, Fire 0] (mount ''medium'' inOrder))"
    and i: "selectionInv (initializeGame inOrder oneSelected)" by blast+
  from t inv have "selectionInv (handleCardClick 10 1 oneSelected)"
    and "selectionInv (runCallback (MatchCb 0 1) oneSelected)"
    and "selectionInv (runCallback (MismatchCb 0 1) oneSelected)"
    and "selectionInv (fire 0 oneSelected)" by blast+
  with inv r i show ?thesis by (intro conjI)
qed

text \<open>
  Claim C10, as amended. A \<open>handleCardClick\<close> call with a \<open>cardId\<close> that no card of the
  deck has, made while the selection has fewer than two members and does not hold
  \<open>cardId\<close>, is not rejected: \<open>cardId\<close> is appended to the selection and every card stays
  as it is. When it becomes the second member, the move count goes up by one and the
  mismatch callback is scheduled 1500 ms later; when that timeout fires, the selection
  is emptied and every card whose identifier is the first member gets
  \<open>flipped = false\<close>, all other cards staying as they are. The cards are all unchanged
  only when the first member identifies no card either.
\<close>

theorem absent_card_click:
  assumes absent: "findCard (cards s) cardId = None"
    and len: "length (flippedCards s) < 2"
    and new: "cardId \<notin> set (flippedCards s)"
  shows "(let s' = handleCardClick now cardId s in
     flippedCards s' = flippedCards s @ [cardId] \<and>
     cards s' = cards s \<and>
     (length (flippedCards s) = 0 \<longrightarrow> moves s' = moves s \<and> timers s' = timers s) \<and>
     (length (flippedCards s) = 1 \<longrightarrow>
        moves s' = moves s + 1 \<and>
        timers s' = timers s @
          [\<lparr>due = now + 1500, callback = MismatchCb (hd (flippedCards s)) cardId\<rparr>] \<and>
        flippedCards (fire (length (timers s)) s') = [] \<and>
        cards (fire (length (timers s)) s') =
          map (\<lambda>c. if id_card c = hd (flippedCards s) then c\<lparr>flipped := False\<rparr> else c) (cards s) \<and>
        (findCard (cards s) (hd (flippedCards s)) = None \<longrightarrow>
           cards (fire (length (timers s)) s') = cards s)))"
proof -
  from absent have noid: "\<And>c. c \<in> set (cards s) \<Longrightarrow> id_card c \<noteq> cardId"
    by (rule findCard_None_neq)
  then have same: "map (\<lambda>c. if id_card c = cardId then c\<lparr>flipped := True\<rparr> else c) (cards s) = cards s"
    by (simp add: map_idI)
  from absent len new have ok: "\<not> rejects s cardId"
    by (simp add: rejects_def)
  note acc = handleCardClick_accepted [OF ok, of now]
  have zero: "length (flippedCards s) = 0 \<Longrightarrow> timers (handleCardClick now cardId s) = timers s"
    using ok by (auto simp: rejects_def handleCardClick_def Let_def)
  have one: "length (flippedCards s) = 1 \<Longrightarrow>
        timers (handleCardClick now cardId s) = timers s @
          [\<lparr>due = now + 1500, callback = MismatchCb (hd (flippedCards s)) cardId\<rparr>] \<and>
        flippedCards (fire (length (timers s)) (handleCardClick now cardId s)) = [] \<and>
        cards (fire (length (timers s)) (handleCardClick now cardId s)) =
          map (\<lambda>c. if id_card c = hd (flippedCards s) then c\<lparr>flipped := False\<rparr> else c) (cards s)"
  proof -
    assume "length (flippedCards s) = 1"
    then obtain a where sel: "flippedCards s = [a]"
      by (cases "flippedCards s") auto
    have m: "map (\<lambda>c. if id_card c = a \<or> id_card c = cardId then c\<lparr>flipped := False\<rparr> else c) (cards s) =
             map (\<lambda>c. if id_card c = a then c\<lparr>flipped := False\<rparr> else c) (cards s)"
      using noid by (intro map_cong) auto
    show ?thesis
      unfolding handleCardClick_second [OF sel ok]
      using absent sel same m by (simp add: fire_def split: option.splits)
  qed
  have none: "findCard (cards s) (hd (flippedCards s)) = None \<Longrightarrow>
      map (\<lambda>c. if id_card c = hd (flippedCards s) then c\<lparr>flipped := False\<rparr> else c) (cards s) = cards s"
  proof -
    assume "findCard (cards s) (hd (flippedCards s)) = None"
    then have "\<And>c. c \<in> set (cards s) \<Longrightarrow> id_card c \<noteq> hd (flippedCards s)"
      by (rule findCard_None_neq)
    then show ?thesis by (simp add: map_idI)
  qed
  show ?thesis
    unfolding Let_def using acc same zero one none by auto
qed


text \<open>The theorem at the click on the identifier 99 after card 0 was selected.\<close>

theorem absent_card_click_witness:
  "findCard (cards oneSelected) 99 = None \<and> length (flippedCards oneSelected) < 2 \<and>
   99 \<notin> set (flippedCards oneSelected) \<and> length (flippedCards oneSelected) = 1 \<and>
   flippedCards (handleCardClick 10 99 oneSelected) = flippedCards oneSelected @ [99] \<and>
   cards (handleCardClick 10 99 oneSelected) = cards oneSelected \<and>
   moves (handleCardClick 10 99 oneSelected) = moves oneSelected + 1 \<and>
   timers (handleCardClick 10 99 oneSelected) =
     timers oneSelected @ [\<lparr>due = 10 + 1500, callback = MismatchCb (hd (flippedCards oneSelected)) 99\<rparr>] \<and>
   flippedCards (fire (length (timers oneSelected)) (handleCardClick 10 99 oneSelected)) = []"
proof -
  have a: "findCard (cards oneSelected) 99 = None" and l: "length (flippedCards oneSelected) < 2"
    and n: "99 \<notin> set (flippedCards oneSelected)" and l1: "length (flippedCards oneSelected) = 1"
    by code_simp+
  note t = absent_card_click [OF a l n, of 10, unfolded Let_def]
  from t l1 have "flippedCards (handleCardClick 10 99 oneSelected) = flippedCards oneSelected @ [99]"
    and "cards (handleCardClick 10 99 oneSelected) = cards oneSelected"
    and "moves (handleCardClick 10 99 oneSelected) = moves oneSelected + 1"
    and "timers (handleCardClick 10 99 oneSelected) =
           timers oneSelected @ [\<lparr>due = 10 + 1500, callback = MismatchCb (hd (flippedCards oneSelected)) 99\<rparr>]"
    and "flippedCards (fire (length (timers oneSelected)) (handleCardClick 10 99 oneSelected)) = []"
    by blast+
  with a l n l1 show ?thesis by (intro conjI)
qed

text \<open>
  Claim C10 as it is written fails. With card 0 selected and face up, the click on the
  identifier 99 makes the pair 0, 99; the mismatch callback turns card 0 face down, so
  the cards after the timeout are not the cards before the click.
\<close>

theorem absent_card_click_counterexample:
  "findCard (cards oneSelected) 99 = None \<and> length (flippedCards oneSelected) < 2 \<and>
   99 \<notin> set (flippedCards oneSelected) \<and>
   flippedCards (handleCardClick 10 99 oneSelected) = [0, 99] \<and>
   timers (handleCardClick 10 99 oneSelected) = [\<lparr>due = 1510, callback = MismatchCb 0 99\<rparr>] \<and>
   map flipped (cards (handleCardClick 10 99 oneSelected)) = True # replicate 15 False \<and>
   map flipped (cards (fire 0 (handleCardClick 10 99 oneSelected))) = replicate 16 False \<and>
   cards (fire 0 (handleCardClick 10 99 oneSelected)) \<noteq> cards (handleCardClick 10 99 oneSelected) \<and>
   cards (fire 0 (handleCardClick 10 99 oneSelected)) \<noteq> cards oneSelected"
  by code_simp

section \<open>Restart, stale timeouts and the completion message\<close>

text \<open>
  \<open>initializeGame\<close> clears no timeout: the list of pending timeouts is what it was,
  so a callback scheduled before a restart runs in the session after it.
\<close>

lemma initializeGame_keeps_timers: "timers (initializeGame p s) = timers s"
  by (simp add: initializeGame_def)

text \<open>
  Claim C4 fails on the code. The pair 0, 1 is selected at 0 ms and 10 ms, New Game is
  pressed, and card 2 of the new deck is selected at 20 ms. The match timeout of the
  old session is still pending; when it fires at 1010 ms, cards 0 and 1 of the new
  deck become matched, the matched-pair count goes from 0 to 1, and the selection
  \<open>[2]\<close> is emptied.
\<close>

theorem stale_callback_changes_new_session:
  "playable 0 fresh [Click 0 0, Click 10 1, Restart inOrder, Click 20 2, Fire 0] \<and>
   timers restartedStale = [\<lparr>due = 1010, callback = MatchCb 0 1\<rparr>] \<and>
   outcome restartedStale = (False, 0, [2], replicate 16 False, []) \<and>
   outcome (step (Fire 0) restartedStale) =
     (False, 1, [], [True, True] @ replicate 14 False, [])"
  by code_simp

text \<open>
  What the two callbacks do at whatever state they meet. The match callback marks the
  cards of both identifiers matched and face down, adds one to the count and empties
  the selection. The mismatch callback turns the cards of both identifiers face down
  and empties the selection; it writes no \<open>matched\<close> flag and no count, so a card that
  another callback has matched in the meantime stays matched.
\<close>

lemma matched_mismatch:
  "map matched (map (\<lambda>c. if id_card c = a \<or> id_card c = b
                           then c\<lparr>flipped := False\<rparr> else c) cs) = map matched cs"
  by (induction cs) auto

lemma match_callback_anywhere:
  "matchedPairs (runCallback (MatchCb a b) t) = matchedPairs t + 1 \<and>
   flippedCards (runCallback (MatchCb a b) t) = [] \<and>
   map id_card (cards (runCallback (MatchCb a b) t)) = map id_card (cards t) \<and>
   (\<forall>c \<in> set (cards (runCallback (MatchCb a b) t)).
      id_card c = a \<or> id_card c = b \<longrightarrow> matched c \<and> \<not> flipped c)"
proof -
  have c: "cards (runCallback (MatchCb a b) t) =
      map (\<lambda>c. if id_card c = a \<or> id_card c = b
                then c\<lparr>matched := True, flipped := False\<rparr> else c) (cards t)"
    by simp
  have 1: "matchedPairs (runCallback (MatchCb a b) t) = matchedPairs t + 1"
    and 2: "flippedCards (runCallback (MatchCb a b) t) = []"
    by simp_all
  have 3: "map id_card (cards (runCallback (MatchCb a b) t)) = map id_card (cards t)"
    unfolding c by (rule ids_match)
  have 4: "\<forall>c \<in> set (cards (runCallback (MatchCb a b) t)).
      id_card c = a \<or> id_card c = b \<longrightarrow> matched c \<and> \<not> flipped c"
    unfolding c using match_marks by blast
  from 1 2 3 4 show ?thesis by (intro conjI)
qed

lemma mismatch_callback_anywhere:
  "matchedPairs (runCallback (MismatchCb a b) t) = matchedPairs t \<and>
   flippedCards (runCallback (MismatchCb a b) t) = [] \<and>
   map id_card (cards (runCallback (MismatchCb a b) t)) = map id_card (cards t) \<and>
   map matched (cards (runCallback (MismatchCb a b) t)) = map matched (cards t) \<and>
   (\<forall>c \<in> set (cards (runCallback (MismatchCb a b) t)).
      id_card c = a \<or> id_card c = b \<longrightarrow> \<not> flipped c)"
proof -
  have c: "cards (runCallback (MismatchCb a b) t) =
      map (\<lambda>c. if id_card c = a \<or> id_card c = b then c\<lparr>flipped := False\<rparr> else c) (cards t)"
    by simp
  have 1: "matchedPairs (runCallback (MismatchCb a b) t) = matchedPairs t"
    and 2: "flippedCards (runCallback (MismatchCb a b) t) = []"
    by simp_all
  have 3: "map id_card (cards (runCallback (MismatchCb a b) t)) = map id_card (cards t)"
    unfolding c by (rule ids_mismatch)
  have 4: "map matched (cards (runCallback (MismatchCb a b) t)) = map matched (cards t)"
    unfolding c by (rule matched_mismatch)
  have 5: "\<forall>c \<in> set (cards (runCallback (MismatchCb a b) t)).
      id_card c = a \<or> id_card c = b \<longrightarrow> \<not> flipped c"
    unfolding c using mismatch_marks by blast
  from 1 2 3 4 5 show ?thesis by (intro conjI)
qed

text \<open>
  Claim C7 fails on the code. The pair 0, 1 is selected at 0 ms and 10 ms, New Game is
  pressed, and cards 0 (Fighter Plane) and 2 (Helicopter) of the new deck are selected
  at 20 ms and 30 ms: a completed selection of two different symbols, whose mismatch
  timeout is due at 1530 ms. The match timeout of the old session is due at 1010 ms
  and fires first (the other order is not playable): it marks cards 0 and 1 matched
  and raises the count from 0 to 1. When the mismatch timeout fires, card 0 is turned
  face down but stays matched, and the count is 1, not the 0 of the moment the
  selection was completed. Without the stale timeout the claim holds (the lemma on the
  mismatch branch above).
\<close>

theorem mismatch_after_stale_match:
  "playable 0 fresh (staleBeforeMismatch @ [Fire 0, Fire 0]) \<and>
   \<not> playable 30 mismatchPending [Fire 1] \<and>
   timers mismatchPending =
     [\<lparr>due = 1010, callback = MatchCb 0 1\<rparr>, \<lparr>due = 1530, callback = MismatchCb 0 2\<rparr>] \<and>
   outcome mismatchPending = (False, 0, [0, 2], replicate 16 False, []) \<and>
   timers (step (Fire 0) mismatchPending) = [\<lparr>due = 1530, callback = MismatchCb 0 2\<rparr>] \<and>
   outcome (run [Fire 0, Fire 0] mismatchPending) =
     (False, 1, [], [True, True] @ replicate 14 False, []) \<and>
   map flipped (cards (run [Fire 0, Fire 0] mismatchPending)) = replicate 16 False"
  by code_simp

subsection \<open>What every posted record satisfies\<close>

lemma recordOk_completionData: "0 \<le> moves s \<Longrightarrow> recordOk (completionData s)"
  by (simp add: recordOk_def completionData_def)

lemma score_antimono:
  "moves s \<le> moves t \<Longrightarrow> score (completionData t) \<le> score (completionData s)"
  by (simp add: completionData_def)

lemma postedInv_winEffect: "postedInv s \<Longrightarrow> postedInv (winEffect prev s)"
  by (simp add: postedInv_def winEffect_def recordOk_completionData)

lemma postedInv_act: "postedInv s \<Longrightarrow> postedInv (act e s)"
proof (cases e)
  case (Click now cardId)
  assume "postedInv s"
  then show ?thesis
    by (auto simp: Click postedInv_def handleCardClick_def Let_def)
next
  case (Restart p)
  assume "postedInv s"
  then show ?thesis
    by (simp add: Restart postedInv_def initializeGame_def)
next
  case (Fire k)
  assume "postedInv s"
  then show ?thesis
    by (cases "callback (timers s ! k)") (simp_all add: Fire postedInv_def fire_def)
next
  case (Tick now)
  assume "postedInv s"
  then show ?thesis
    by (simp add: Tick postedInv_def tick_def)
qed

lemma postedInv_run: "postedInv s \<Longrightarrow> postedInv (run es s)"
  by (induction es arbitrary: s) (simp_all add: run_def step_def postedInv_winEffect postedInv_act)

text \<open>
  Every record that any run posts has the fixed type tag and identifier, the completed
  flag, the maximal score 1000, the score \<open>max (1000 - moves * 10) 100\<close>, which lies
  between 100 and 1000, and a move count that is not negative.
\<close>

lemma posted_records_ok:
  "x \<in> set (posted (run es (mount diff p))) \<Longrightarrow> recordOk (snd x)"
proof -
  have "postedInv (mount diff p)"
    by (simp add: postedInv_def mount_def initializeGame_def initial_def)
  then have "postedInv (run es (mount diff p))" by (rule postedInv_run)
  then show "x \<in> set (posted (run es (mount diff p))) \<Longrightarrow> recordOk (snd x)"
    by (simp add: postedInv_def)
qed

subsection \<open>When the record is posted\<close>

lemma posted_act: "posted (act e s) = posted s"
proof (cases e)
  case (Click now cardId)
  show ?thesis by (simp add: Click handleCardClick_def Let_def)
next
  case (Restart p)
  show ?thesis by (simp add: Restart initializeGame_def)
next
  case (Fire k)
  show ?thesis
    by (cases "callback (timers s ! k)") (simp_all add: Fire fire_def)
next
  case (Tick now)
  show ?thesis by (simp add: Tick tick_def)
qed

lemma emission_only_at_full_count:
  assumes "posted (step e s) \<noteq> posted s"
  shows "matchedPairs (step e s) = totalPairs (difficulty (step e s)) \<and>
         gameStarted (step e s) \<and> gameWon (step e s) \<and> deps (act e s) \<noteq> deps s \<and>
         posted (step e s) = posted s @ [(Window, completionData (act e s)),
                                        (WindowParent, completionData (act e s))]"
  using assms by (auto simp: step_def winEffect_def posted_act split: if_splits)

lemma restart_posts_nothing: "posted (step (Restart p) s) = posted s"
proof -
  have "totalPairs (difficulty s) \<noteq> 0"
    using totalPairs_cases [of "difficulty s"] by auto
  then show ?thesis
    by (simp add: step_def winEffect_def initializeGame_def)
qed

lemma wonInv_step: "wonInv s \<Longrightarrow> wonInv (step e s)"
proof -
  assume w: "wonInv s"
  have keep: "deps (act e s) = deps s \<Longrightarrow> gameWon (act e s) = gameWon s \<or> \<not> (matchedPairs (act e s) = totalPairs (difficulty (act e s)) \<and> gameStarted (act e s))"
  proof (cases e)
    case (Click now cardId)
    show ?thesis by (simp add: Click handleCardClick_def Let_def)
  next
    case (Restart p)
    have "totalPairs (difficulty s) \<noteq> 0"
      using totalPairs_cases [of "difficulty s"] by auto
    then show ?thesis by (simp add: Restart initializeGame_def)
  next
    case (Fire k)
    show ?thesis
      by (cases "callback (timers s ! k)") (simp_all add: Fire fire_def)
  next
    case (Tick now)
    show ?thesis by (simp add: Tick tick_def)
  qed
  show ?thesis
  proof (cases "deps (act e s) = deps s")
    case True
    with keep w show ?thesis
      by (auto simp: wonInv_def step_def winEffect_def deps_def)
  next
    case False
    then show ?thesis
      by (auto simp: wonInv_def step_def winEffect_def)
  qed
qed

lemma wonInv_run: "wonInv s \<Longrightarrow> wonInv (run es s)"
  by (induction es arbitrary: s) (simp_all add: run_def wonInv_step)

lemma won_when_full:
  "matchedPairs (run es (mount diff p)) = totalPairs (difficulty (run es (mount diff p))) \<Longrightarrow>
   gameStarted (run es (mount diff p)) \<Longrightarrow> gameWon (run es (mount diff p))"
proof -
  have "wonInv (mount diff p)"
    by (simp add: wonInv_def mount_def initializeGame_def)
  then have "wonInv (run es (mount diff p))" by (rule wonInv_run)
  then show "matchedPairs (run es (mount diff p)) = totalPairs (difficulty (run es (mount diff p))) \<Longrightarrow>
   gameStarted (run es (mount diff p)) \<Longrightarrow> gameWon (run es (mount diff p))"
    by (simp add: wonInv_def)
qed

subsection \<open>A session that is never restarted\<close>

text \<open>Without a restart, every posted record has at least \<open>totalPairs\<close> moves in it.\<close>

lemma filter_remove_nth:
  "k < length xs \<Longrightarrow>
   length (filter P (take k xs @ drop (Suc k) xs)) + (if P (xs ! k) then 1 else 0) =
   length (filter P xs)"
proof -
  assume k: "k < length xs"
  then have "xs = take k xs @ xs ! k # drop (Suc k) xs"
    by (rule id_take_nth_drop)
  then have "length (filter P xs) = length (filter P (take k xs @ xs ! k # drop (Suc k) xs))"
    by simp
  then show ?thesis by simp
qed

lemma countedInv_act:
  assumes "countedInv s" and "\<not> isRestart e"
  shows "matchedPairs (act e s) + int (length (filter isMatch (timers (act e s)))) \<le> moves (act e s)"
proof (cases e)
  case (Click now cardId)
  from assms(1) show ?thesis
    by (auto simp: Click countedInv_def handleCardClick_def Let_def)
next
  case (Restart p)
  with assms(2) show ?thesis by simp
next
  case (Fire k)
  show ?thesis
  proof (cases "k < length (timers s)")
    case True
    note rm = filter_remove_nth [OF True, of isMatch]
    from assms(1) rm show ?thesis
      by (cases "callback (timers s ! k)") (simp_all add: Fire fire_def True countedInv_def)
  next
    case False
    with assms(1) show ?thesis by (simp add: Fire fire_def countedInv_def)
  qed
next
  case (Tick now)
  from assms(1) show ?thesis by (simp add: Tick tick_def countedInv_def)
qed

lemma countedInv_step:
  assumes "countedInv s" and "\<not> isRestart e"
  shows "countedInv (step e s)"
proof -
  note a = countedInv_act [OF assms]
  have t: "8 \<le> totalPairs (difficulty (act e s))"
    using totalPairs_cases [of "difficulty (act e s)"] by auto
  have p: "\<forall>x \<in> set (posted (act e s)). 1 \<le> moves_d (data_c (snd x))"
    using assms(1) by (simp add: posted_act countedInv_def)
  show ?thesis
  proof (cases "deps s = deps (act e s) \<or>
                \<not> (matchedPairs (act e s) = totalPairs (difficulty (act e s)) \<and> gameStarted (act e s))")
    case True
    with a p show ?thesis
      by (auto simp: countedInv_def step_def winEffect_def)
  next
    case False
    with a t have "8 \<le> moves (act e s)" by simp
    with False a p show ?thesis
      by (simp add: countedInv_def step_def winEffect_def completionData_def)
  qed
qed

lemma countedInv_run:
  "countedInv s \<Longrightarrow> \<forall>e \<in> set es. \<not> isRestart e \<Longrightarrow> countedInv (run es s)"
  by (induction es arbitrary: s) (simp_all add: run_def countedInv_step)

lemma moves_without_restart:
  assumes "\<forall>e \<in> set es. \<not> isRestart e"
    and "x \<in> set (posted (run es (mount diff p)))"
  shows "1 \<le> moves_d (data_c (snd x))"
proof -
  have "countedInv (mount diff p)"
    by (simp add: countedInv_def mount_def initializeGame_def initial_def)
  then have "countedInv (run es (mount diff p))"
    using assms(1) by (rule countedInv_run)
  with assms(2) show ?thesis by (simp add: countedInv_def)
qed


text \<open>
  Without a restart, on a run the page can show, the record is posted at most once:
  when the matched-pair count reaches \<open>totalPairs\<close> every card is matched, no timeout
  is pending and the interval is gone, so nothing but New Game is enabled.
\<close>

lemma matched_flip:
  "filter matched (map (\<lambda>c. if id_card c = i then c\<lparr>flipped := True\<rparr> else c) cs) =
   map (\<lambda>c. if id_card c = i then c\<lparr>flipped := True\<rparr> else c) (filter matched cs)"
  by (induction cs) auto

lemma matched_unflip:
  "filter matched (map (\<lambda>c. if id_card c = a \<or> id_card c = b then c\<lparr>flipped := False\<rparr> else c) cs) =
   map (\<lambda>c. if id_card c = a \<or> id_card c = b then c\<lparr>flipped := False\<rparr> else c) (filter matched cs)"
  by (induction cs) auto

lemma matched_mark:
  assumes "\<forall>c \<in> set cs. id_card c = a \<or> id_card c = b \<longrightarrow> \<not> matched c"
  shows "length (filter matched
           (map (\<lambda>c. if id_card c = a \<or> id_card c = b
                      then c\<lparr>matched := True, flipped := False\<rparr> else c) cs)) =
         length (filter matched cs) + length (filter (\<lambda>c. id_card c = a \<or> id_card c = b) cs)"
  using assms by (induction cs) auto

lemma two_ids:
  assumes "distinct (map id_card cs)" and "a \<noteq> b"
    and "a \<in> id_card ` set cs" and "b \<in> id_card ` set cs"
  shows "length (filter (\<lambda>c. id_card c = a \<or> id_card c = b) cs) = 2"
proof -
  have "length (filter (\<lambda>c. id_card c = a \<or> id_card c = b) cs) =
        length (filter (\<lambda>i. i = a \<or> i = b) (map id_card cs))"
    by (simp add: filter_map comp_def)
  also have "\<dots> = card ({i. i = a \<or> i = b} \<inter> set (map id_card cs))"
    using assms(1) by (rule distinct_length_filter)
  also have "{i. i = a \<or> i = b} \<inter> set (map id_card cs) = {a, b}"
    using assms(3,4) by auto
  also have "card {a, b} = 2"
    using assms(2) by simp
  finally show ?thesis .
qed

lemma all_matched:
  assumes "length (filter matched cs) = length cs" and "c \<in> set cs"
  shows "matched c"
proof (rule ccontr)
  assume "\<not> matched c"
  with assms(2) have "length (filter matched cs) < length cs"
    by (rule length_filter_less)
  with assms(1) show False by simp
qed

lemma structInv_full:
  assumes inv: "structInv s" and full: "matchedPairs s = totalPairs (difficulty s)"
  shows "(\<forall>c \<in> set (cards s). matched c) \<and> flippedCards s = [] \<and> timers s = []"
proof -
  from inv full have "length (filter matched (cards s)) = length (cards s)"
    by (simp add: structInv_def)
  then have all: "\<forall>c \<in> set (cards s). matched c"
    using all_matched by blast
  have sel: "flippedCards s = []"
  proof (rule ccontr)
    assume "flippedCards s \<noteq> []"
    then obtain i where i: "i \<in> set (flippedCards s)"
      by (cases "flippedCards s") auto
    with inv obtain c where c: "c \<in> set (cards s)" "id_card c = i"
      by (auto simp: structInv_def)
    with all have "matched c" by blast
    with inv c have "i \<notin> set (flippedCards s)"
      by (auto simp: structInv_def selectionInv_def)
    with i show False by simp
  qed
  with inv have "timers s = []" by (simp add: structInv_def)
  with all sel show ?thesis by simp
qed

lemma nothing_enabled_when_full:
  assumes "structInv s" and "wonInv s" and "matchedPairs s = totalPairs (difficulty s)"
    and "\<not> isRestart e"
  shows "\<not> enabled s e"
proof (cases e)
  case (Click now cardId)
  from structInv_full [OF assms(1,3)] show ?thesis by (auto simp: Click)
next
  case (Restart p)
  with assms(4) show ?thesis by simp
next
  case (Fire k)
  from structInv_full [OF assms(1,3)] show ?thesis by (simp add: Fire)
next
  case (Tick now)
  from assms(2,3) show ?thesis by (auto simp: Tick wonInv_def)
qed

lemma handleCardClick_difficulty: "difficulty (handleCardClick now cardId s) = difficulty s"
  by (simp add: handleCardClick_def Let_def)

lemma handleCardClick_first:
  "flippedCards s = [] \<Longrightarrow> timers (handleCardClick now cardId s) = timers s"
  by (simp add: handleCardClick_def Let_def)

lemma structInv_started:
  "structInv (s\<lparr>gameStarted := g, startTime := t\<rparr>) = structInv s"
  by (simp add: structInv_def selectionInv_def)

lemma structInv_timeElapsed: "structInv (s\<lparr>timeElapsed := t\<rparr>) = structInv s"
  by (simp add: structInv_def selectionInv_def)

lemma structInv_click:
  assumes inv: "structInv s" and en: "enabled s (Click now cardId)"
  shows "structInv (handleCardClick now cardId s)"
proof (cases "rejects s cardId")
  case True
  show ?thesis
    using inv by (simp add: handleCardClick_rejected [OF True] structInv_started)
next
  case False
  let ?s' = "handleCardClick now cardId s"
  note acc = handleCardClick_accepted [OF False, of now]
  from inv have sinv: "selectionInv s" by (simp add: structInv_def)
  from en have mem: "cardId \<in> id_card ` set (cards s)" by auto
  have ids: "map id_card (cards ?s') = map id_card (cards s)"
    using acc by (simp only: ids_flip)
  then have idset: "id_card ` set (cards ?s') = id_card ` set (cards s)"
    by (simp only: set_map [symmetric])
  have 1: "selectionInv ?s'" using sinv by (rule selectionInv_click)
  from acc have "cards ?s' =
      map (\<lambda>c. if id_card c = cardId then c\<lparr>flipped := True\<rparr> else c) (cards s)"
    by blast
  then have "length (filter matched (cards ?s')) = length (filter matched (cards s))"
    by (simp only: matched_flip length_map)
  with inv acc have 2: "int (length (filter matched (cards ?s'))) = 2 * matchedPairs ?s'"
    by (simp add: structInv_def)
  have 3: "int (length (cards ?s')) = 2 * totalPairs (difficulty ?s')"
    using inv acc by (simp add: structInv_def handleCardClick_difficulty)
  from acc have fc: "flippedCards ?s' = flippedCards s @ [cardId]" by (rule conjunct1)
  from inv have "set (flippedCards s) \<subseteq> id_card ` set (cards s)"
    by (simp add: structInv_def)
  with mem have 4: "set (flippedCards ?s') \<subseteq> id_card ` set (cards ?s')"
    unfolding idset fc by simp
  from False have "length (flippedCards s) \<noteq> 2" by (simp add: rejects_def)
  moreover from sinv have "length (flippedCards s) \<le> 2"
    by (simp add: selectionInv_def)
  ultimately have "length (flippedCards s) = 0 \<or> length (flippedCards s) = 1"
    by arith
  then have 5: "if length (flippedCards ?s') = 2
      then length (timers ?s') = 1 \<and>
           (callback (hd (timers ?s')) = MatchCb (flippedCards ?s' ! 0) (flippedCards ?s' ! 1) \<or>
            callback (hd (timers ?s')) = MismatchCb (flippedCards ?s' ! 0) (flippedCards ?s' ! 1))
      else timers ?s' = []"
  proof
    assume "length (flippedCards s) = 0"
    then have e: "flippedCards s = []" by simp
    with inv have "timers s = []" by (simp add: structInv_def)
    with e acc show ?thesis by (simp add: handleCardClick_first)
  next
    assume "length (flippedCards s) = 1"
    then obtain a where a: "flippedCards s = [a]"
      by (cases "flippedCards s") auto
    with inv have t: "timers s = []" by (simp add: structInv_def)
    show ?thesis
      by (simp add: handleCardClick_second [OF a False] t)
  qed
  from 1 2 3 4 5 show ?thesis unfolding structInv_def by (intro conjI)
qed

lemma structInv_fire:
  assumes inv: "structInv s" and en: "enabled s (Fire k)"
  shows "structInv (fire k s)"
proof -
  from en have k: "k < length (timers s)" by simp
  from inv have sinv: "selectionInv s" by (simp add: structInv_def)
  from k inv have l2: "length (flippedCards s) = 2"
    by (auto simp: structInv_def split: if_splits)
  then obtain a b where sel: "flippedCards s = [a, b]"
    by (cases "flippedCards s"; cases "tl (flippedCards s)") auto
  from inv l2 have one: "length (timers s) = 1"
    and cb: "callback (hd (timers s)) = MatchCb (flippedCards s ! 0) (flippedCards s ! 1) \<or>
             callback (hd (timers s)) = MismatchCb (flippedCards s ! 0) (flippedCards s ! 1)"
    by (simp_all add: structInv_def)
  from one k have k0: "k = 0" by simp
  from one obtain tm where tm: "timers s = [tm]"
    by (cases "timers s") auto
  from cb sel tm have cb': "callback tm = MatchCb a b \<or> callback tm = MismatchCb a b"
    by simp
  from sinv sel have ab: "a \<noteq> b"
    and unm: "\<forall>c \<in> set (cards s). id_card c = a \<or> id_card c = b \<longrightarrow> \<not> matched c"
    and dist: "distinct (map id_card (cards s))"
    by (auto simp: selectionInv_def)
  from inv sel have mem: "a \<in> id_card ` set (cards s)" "b \<in> id_card ` set (cards s)"
    by (simp_all add: structInv_def)
  have f: "fire k s = runCallback (callback tm) (s\<lparr>timers := []\<rparr>)"
    by (simp add: fire_def k0 tm)
  have 1: "selectionInv (fire k s)" using sinv by (rule selectionInv_fire)
  from cb' show ?thesis
  proof
    assume m: "callback tm = MatchCb a b"
    have "cards (fire k s) =
        map (\<lambda>c. if id_card c = a \<or> id_card c = b
                  then c\<lparr>matched := True, flipped := False\<rparr> else c) (cards s)"
      by (simp add: f m)
    then have "length (filter matched (cards (fire k s))) = length (filter matched (cards s)) + 2"
      by (simp only: matched_mark [OF unm] two_ids [OF dist ab mem])
    with inv have 2: "int (length (filter matched (cards (fire k s)))) = 2 * matchedPairs (fire k s)"
      by (simp add: f m structInv_def)
    from inv have 3: "int (length (cards (fire k s))) = 2 * totalPairs (difficulty (fire k s))"
      by (simp add: f m structInv_def)
    have 4: "flippedCards (fire k s) = []" "timers (fire k s) = []"
      by (simp_all add: f m)
    from 1 2 3 4 show ?thesis by (simp add: structInv_def)
  next
    assume m: "callback tm = MismatchCb a b"
    have "cards (fire k s) =
        map (\<lambda>c. if id_card c = a \<or> id_card c = b then c\<lparr>flipped := False\<rparr> else c) (cards s)"
      by (simp add: f m)
    then have "length (filter matched (cards (fire k s))) = length (filter matched (cards s))"
      by (simp only: matched_unflip length_map)
    with inv have 2: "int (length (filter matched (cards (fire k s)))) = 2 * matchedPairs (fire k s)"
      by (simp add: f m structInv_def)
    from inv have 3: "int (length (cards (fire k s))) = 2 * totalPairs (difficulty (fire k s))"
      by (simp add: f m structInv_def)
    have 4: "flippedCards (fire k s) = []" "timers (fire k s) = []"
      by (simp_all add: f m)
    from 1 2 3 4 show ?thesis by (simp add: structInv_def)
  qed
qed

lemma structInv_act:
  assumes "structInv s" and "enabled s e" and "\<not> isRestart e"
  shows "structInv (act e s)"
proof (cases e)
  case (Click now cardId)
  with assms show ?thesis by (simp add: structInv_click)
next
  case (Restart p)
  with assms(3) show ?thesis by simp
next
  case (Fire k)
  with assms show ?thesis by (simp add: structInv_fire)
next
  case (Tick now)
  with assms(1) show ?thesis by (simp add: tick_def structInv_timeElapsed)
qed

lemma structInv_winEffect: "structInv (winEffect prev s) = structInv s"
  by (simp add: winEffect_def structInv_def selectionInv_def)

lemma gameWon_act: "\<not> isRestart e \<Longrightarrow> gameWon (act e s) = gameWon s"
proof (cases e)
  case (Click now cardId)
  show ?thesis by (simp add: Click handleCardClick_def Let_def)
next
  case (Restart p)
  assume "\<not> isRestart e"
  with Restart show ?thesis by simp
next
  case (Fire k)
  show ?thesis
    by (cases "callback (timers s ! k)") (simp_all add: Fire fire_def)
next
  case (Tick now)
  show ?thesis by (simp add: Tick tick_def)
qed

lemma soloInv_step:
  assumes inv: "soloInv s" and en: "enabled s e" and nr: "\<not> isRestart e"
  shows "soloInv (step e s)"
proof -
  from inv have st: "structInv s" and w: "wonInv s" by (simp_all add: soloInv_def)
  from nothing_enabled_when_full [OF st w _ nr] en
  have "matchedPairs s \<noteq> totalPairs (difficulty s)" by blast
  with inv have none: "posted s = []" and nw: "\<not> gameWon s"
    by (auto simp: soloInv_def)
  have 1: "structInv (step e s)"
    using structInv_act [OF st en nr] by (simp add: step_def structInv_winEffect)
  have 2: "wonInv (step e s)" using w by (rule wonInv_step)
  have pa: "posted (act e s) = []" and ga: "\<not> gameWon (act e s)"
    using none nw nr by (simp_all add: posted_act gameWon_act)
  from pa ga have 3: "gameWon (step e s) \<longleftrightarrow> posted (step e s) \<noteq> []"
    and 4: "posted (step e s) = [] \<or>
            length (posted (step e s)) = 2 \<and>
            matchedPairs (step e s) = totalPairs (difficulty (step e s))"
    by (simp_all add: step_def winEffect_def)
  from 1 2 3 4 show ?thesis by (simp add: soloInv_def)
qed

lemma soloInv_run:
  "soloInv s \<Longrightarrow> \<forall>e \<in> set es. \<not> isRestart e \<Longrightarrow> playable clock s es \<Longrightarrow> soloInv (run es s)"
proof (induction es arbitrary: s clock)
  case Nil
  then show ?case by (simp add: run_def)
next
  case (Cons e es)
  from Cons.prems have "soloInv (step e s)"
    by (simp add: soloInv_step)
  with Cons.prems Cons.IH [of "step e s" "occurs clock s e"] show ?case
    by (simp add: run_def)
qed

lemma deck_fresh: "c \<in> set (cards (initializeGame p s)) \<Longrightarrow> \<not> matched c"
  by (simp add: initializeGame_def set_shuffle gameDeck_def createPairs_pairsFrom pairsFrom_fresh)

lemma difficulty_step: "difficulty (step e s) = difficulty s"
proof (cases e)
  case (Click now cardId)
  show ?thesis by (simp add: Click step_def winEffect_def handleCardClick_difficulty)
next
  case (Restart p)
  show ?thesis by (simp add: Restart step_def winEffect_def initializeGame_def)
next
  case (Fire k)
  show ?thesis
    by (cases "callback (timers s ! k)") (simp_all add: Fire step_def winEffect_def fire_def)
next
  case (Tick now)
  show ?thesis by (simp add: Tick step_def winEffect_def tick_def)
qed

lemma difficulty_run: "difficulty (run es s) = difficulty s"
  by (induction es arbitrary: s) (simp_all add: run_def difficulty_step)

lemma soloInv_mount: "soloInv (mount diff p)"
proof -
  have l: "int (length (cards (mount diff p))) = 2 * totalPairs diff"
    by (simp add: mount_def initializeGame_def initial_def length_shuffle length_gameDeck)
  have f: "\<forall>c \<in> set (cards (mount diff p)). \<not> matched c"
    using deck_fresh [of _ p "initial diff"] by (simp add: mount_def)
  then have m: "filter matched (cards (mount diff p)) = []"
    by (simp add: filter_empty_conv)
  have s: "selectionInv (mount diff p)"
    unfolding mount_def by (rule selectionInv_initializeGame)
  have t: "0 < totalPairs diff"
    using totalPairs_cases [of diff] by auto
  from l m s t show ?thesis
    by (simp add: soloInv_def structInv_def wonInv_def mount_def initializeGame_def initial_def)
qed

lemma posted_once_without_restart:
  assumes "\<forall>e \<in> set es. \<not> isRestart e" and "playable clock (mount diff p) es"
  shows "posted (run es (mount diff p)) = [] \<and> \<not> gameWon (run es (mount diff p)) \<or>
         length (posted (run es (mount diff p))) = 2 \<and> gameWon (run es (mount diff p)) \<and>
         matchedPairs (run es (mount diff p)) = totalPairs diff"
proof -
  have d: "difficulty (run es (mount diff p)) = diff"
    by (simp add: difficulty_run mount_def initializeGame_def initial_def)
  from soloInv_run [OF soloInv_mount assms] show ?thesis
    by (auto simp: soloInv_def d)
qed

text \<open>
  Claim C5 fails on the code in its last part. Every posted record has the type tag,
  the identifier, the completed flag, the maximal score and the score of the claim,
  and without a restart its moves field is at least 1 (the two lemmas on posted
  records above). With restarts it can be 0. The pair 0, 1 is selected and New Game
  is pressed eight times within 230 ms, which leaves eight match timeouts pending and
  the move count at 0. The timeouts fire between 1010 ms and 1220 ms and bring the
  matched-pair count of the last session to 8; the click on card 2 at 2000 ms starts
  the game, and the win effect posts a record whose moves field is 0 (score 1000).
\<close>

theorem completion_with_zero_moves:
  "playable 0 fresh restartedEightTimes \<and>
   outcome (run restartedEightTimes fresh) =
     (True, 8, [2], [True, True] @ replicate 14 False,
      [(Window, 0, 1000), (WindowParent, 0, 1000)])"
  by code_simp

text \<open>
  Claim C1 fails on the code. Without a restart the record is posted at most once, at
  the step that fills the matched-pair count, and a restart itself posts nothing (the
  lemmas above). A timeout that outlives a restart breaks this. In the run
  \<open>countedTwice\<close> every timeout fires on time and every click is on an enabled button.
  Its last timeout brings the matched-pair count to 8: the won flag is set and the
  record is posted (to the window and to its parent), with 7 moves, while cards 14 and
  15 are face down and unmatched. Selecting them changes the move count, the win
  effect runs again with the count still 8, and the record is posted a second time,
  with 8 moves.
\<close>

theorem completion_posted_twice:
  "playable 0 fresh (countedTwice @ lastPair) \<and>
   outcome (run countedTwice fresh) =
     (True, 8, [], replicate 14 True @ [False, False],
      [(Window, 7, 930), (WindowParent, 7, 930)]) \<and>
   outcome (run (countedTwice @ lastPair) fresh) =
     (True, 8, [14, 15], replicate 14 True @ [False, False],
      [(Window, 7, 930), (WindowParent, 7, 930), (Window, 8, 920), (WindowParent, 8, 920)])"
  by code_simp

end
